theory Spec2Isabelle
  imports Complex_Main "HOL-Library.Sublist" "HOL-Library.AList" "HOL-Library.Log_Nat"
    "HOL-Library.Multiset"
begin

section \<open>Text primitives of the host language\<close>

text \<open>
  Text is a list of code units; the model covers the code units below 256.  On that range
  \<open>String.prototype.toLowerCase\<close> works unit by unit: it shifts \<open>A\<close>..\<open>Z\<close> and the
  upper-case letters of the Latin-1 block (\<open>0xC0\<close>..\<open>0xDE\<close> without the multiplication sign
  \<open>0xD7\<close>) by 32 and leaves every other unit alone.
\<close>

definition toLowerCase_char :: "char \<Rightarrow> char" where
  "toLowerCase_char c =
     (let n = (of_char c :: nat)
      in if (65 \<le> n \<and> n \<le> 90) \<or> (192 \<le> n \<and> n \<le> 222 \<and> n \<noteq> 215)
         then char_of (n + 32) else c)"

definition toLowerCase :: "string \<Rightarrow> string" where
  "toLowerCase s = map toLowerCase_char s"

text \<open>\<open>s.includes(p)\<close>: \<open>p\<close> occurs in \<open>s\<close> as a contiguous block.\<close>

fun includesStr :: "string \<Rightarrow> string \<Rightarrow> bool" where
  "includesStr [] p = (p = [])"
| "includesStr (c # cs) p = (prefix p (c # cs) \<or> includesStr cs p)"

text \<open>
  \<open>String.prototype.trim\<close> removes white space and line terminators from both ends; below
  256 these are TAB, LF, VT, FF, CR, SP and NBSP.
\<close>

definition isWhiteSpace :: "char \<Rightarrow> bool" where
  "isWhiteSpace c = ((of_char c :: nat) \<in> {9, 10, 11, 12, 13, 32, 160})"

definition trim :: "string \<Rightarrow> string" where
  "trim s = rev (dropWhile isWhiteSpace (rev (dropWhile isWhiteSpace s)))"

text \<open>Decimal rendering of an array index, as template literals do.\<close>

fun string_of_nat :: "nat \<Rightarrow> string" where
  "string_of_nat n =
     (if n < 10 then [char_of (48 + n)]
      else string_of_nat (n div 10) @ [char_of (48 + n mod 10)])"

declare string_of_nat.simps [simp del]

section \<open>Data model of \<open>dataUtils.ts\<close>\<close>

datatype Status = Done | Pending | In_Progress

datatype DepartmentType =
    HR_Payroll
  | Finance
  | Procurement
  | Inventory_Stores
  | Equipment_Workshop
  | Projects_Sales
  | Setup_Admin
  | General

text \<open>
  A parsed row is an object; the model keeps its own properties in enumeration order
  (the order of \<open>Object.values\<close>), each cell a text.  A property read \<open>row[key]\<close> is a lookup
  among the own properties and gives \<open>undefined\<close> (here \<open>None\<close>) for a key the row lacks.
  A \<open>Date\<close> is its time value in milliseconds; \<open>None\<close> stands for \<open>null\<close>.
\<close>

type_synonym row = "(string \<times> string) list"

record Task =
  taskId :: string
  description :: string
  status :: Status
  date :: string
  parsedDate :: "int option"
  department :: DepartmentType
  raw :: row

record DepartmentStats =
  name :: DepartmentType
  totalTasks :: nat
  completedTasks :: nat
  percentage :: int
  nextDeadline :: "int option"
  overdueCount :: nat

record DashboardData =
  tasks :: "Task list"
  departmentStats :: "DepartmentStats list"
  overallProgress :: int

section \<open>Department classification\<close>

definition KEYWORDS :: "(DepartmentType \<times> string list) list" where
  "KEYWORDS =
    [(HR_Payroll, [''employee'', ''payroll'', ''leave'', ''salary'', ''wps'', ''recruit'',
                   ''candidate'', ''personnel'', ''hr'']),
     (Finance, [''finance'', ''account'', ''payment'', ''voucher'', ''ledger'', ''asset'',
                ''bank'', ''tax'', ''p&l'', ''balance'', ''audit'']),
     (Procurement, [''purchase'', ''supplier'', ''lpo'', ''quotation'', ''procurement'',
                    ''vendor'']),
     (Inventory_Stores, [''stock'', ''inventory'', ''material'', ''store'', ''warehouse'',
                         ''item'']),
     (Equipment_Workshop, [''equipment'', ''workshop'', ''vehicle'', ''service'',
                           ''maintenance'', ''repair'', ''machinery'']),
     (Projects_Sales, [''project'', ''boq'', ''job'', ''costing'', ''estimate'', ''tender'',
                       ''sales'', ''crm'', ''contract'']),
     (Setup_Admin, [''srs'', ''database'', ''master'', ''installation'', ''setup'', ''admin'',
                    ''user'', ''role'', ''configuration'', ''meeting'', ''kickoff''])]"

text \<open>The \<open>for\<close> loop over \<open>Object.entries(KEYWORDS)\<close> with its early return.\<close>

fun scanKeywords :: "(DepartmentType \<times> string list) list \<Rightarrow> string \<Rightarrow> DepartmentType" where
  "scanKeywords [] lowerDesc = General"
| "scanKeywords ((dept, keywords) # rest) lowerDesc =
     (if list_ex (\<lambda>word. includesStr lowerDesc word) keywords then dept
      else scanKeywords rest lowerDesc)"

definition determineDepartment :: "string \<Rightarrow> DepartmentType" where
  "determineDepartment desc = scanKeywords KEYWORDS (toLowerCase desc)"

section \<open>Column resolution\<close>

text \<open>\<open>str.toLowerCase().replace(/[^a-z0-9]/g, '')\<close>\<close>

definition isAlnumLower :: "char \<Rightarrow> bool" where
  "isAlnumLower c =
     (let n = (of_char c :: nat) in (97 \<le> n \<and> n \<le> 122) \<or> (48 \<le> n \<and> n \<le> 57))"

definition normalizeStr :: "string \<Rightarrow> string" where
  "normalizeStr str = filter isAlnumLower (toLowerCase str)"

definition matchesCandidate :: "string \<Rightarrow> string \<times> string \<Rightarrow> bool" where
  "matchesCandidate normCandidate h =
     (snd h = normCandidate \<or> includesStr (snd h) normCandidate)"

fun findCandidate :: "(string \<times> string) list \<Rightarrow> string list \<Rightarrow> string option" where
  "findCandidate normalizedHeaders [] = None"
| "findCandidate normalizedHeaders (candidate # rest) =
     (case find (matchesCandidate (normalizeStr candidate)) normalizedHeaders of
        Some m \<Rightarrow> Some (fst m)
      | None \<Rightarrow> findCandidate normalizedHeaders rest)"

definition findColumnKey :: "string list \<Rightarrow> string list \<Rightarrow> string option" where
  "findColumnKey headers candidates =
     (if headers = [] then None
      else findCandidate (map (\<lambda>h. (h, normalizeStr h)) headers) candidates)"

section \<open>Date parsing\<close>

text \<open>
  The calendar-format parser (\<open>parse\<close> of date-fns, called with the reference date
  \<open>new Date()\<close>), the \<open>Date\<close> constructor on a text, and the clock are library code; the
  model takes them as parameters.  \<open>parse host str fmt\<close> and \<open>newDate host str\<close> give \<open>None\<close>
  where the library's result fails \<open>isValid\<close>.  The clock is read once per run: \<open>now\<close> is the
  value of \<open>Date.now()\<close> that \<open>isFuture\<close> compares with, \<open>startOfToday\<close> the time value of
  the start of the current day.
\<close>

record Host =
  parse :: "string \<Rightarrow> string \<Rightarrow> int option"
  newDate :: "string \<Rightarrow> int option"
  now :: int
  startOfToday :: int

definition formats :: "string list" where
  "formats =
    [''d-MMM-yy'', ''dd-MMM-yy'', ''d-MMM-yyyy'', ''dd-MMM-yyyy'',
     ''dd/MM/yyyy'', ''d/M/yyyy'', ''MM/dd/yyyy'', ''M/d/yyyy'',
     ''yyyy-MM-dd'',
     ''d MMM yyyy'', ''d MMMM yyyy'',
     ''MMM d, yyyy'']"

text \<open>The \<open>for\<close> loop over the formats, returning at the first valid result.\<close>

fun tryFormats :: "(string \<Rightarrow> string \<Rightarrow> int option) \<Rightarrow> string \<Rightarrow> string list \<Rightarrow> int option" where
  "tryFormats p cleanStr [] = None"
| "tryFormats p cleanStr (fmt # rest) =
     (case p cleanStr fmt of
        Some parsed \<Rightarrow> Some parsed
      | None \<Rightarrow> tryFormats p cleanStr rest)"

definition parseDate :: "Host \<Rightarrow> string \<Rightarrow> int option" where
  "parseDate host dateStr =
     (if dateStr = [] then None
      else let cleanStr = trim dateStr
           in if cleanStr = [] then None
              else (case tryFormats (parse host) cleanStr formats of
                      Some parsed \<Rightarrow> Some parsed
                    | None \<Rightarrow> newDate host cleanStr))"

section \<open>Truthiness and property reads\<close>

text \<open>
  A value that is \<open>undefined\<close> or the empty text is falsy.  \<open>a || b\<close> is \<open>b\<close> when \<open>a\<close> is
  falsy.  A property read with the key \<open>undefined\<close> reads the property named
  \<open>"undefined"\<close>.
\<close>

definition truthy :: "string option \<Rightarrow> bool" where
  "truthy v = (case v of None \<Rightarrow> False | Some s \<Rightarrow> s \<noteq> [])"

definition orElse :: "string option \<Rightarrow> string option \<Rightarrow> string option" where
  "orElse a b = (if truthy a then a else b)"

definition orDefault :: "string option \<Rightarrow> string \<Rightarrow> string" where
  "orDefault a d = (case a of None \<Rightarrow> d | Some s \<Rightarrow> if s = [] then d else s)"

definition propKey :: "string option \<Rightarrow> string" where
  "propKey key = (case key of None \<Rightarrow> ''undefined'' | Some k \<Rightarrow> k)"

definition getProp :: "row \<Rightarrow> string option \<Rightarrow> string option" where
  "getProp r key = map_of r (propKey key)"

text \<open>\<open>xs[i]\<close> is \<open>undefined\<close> beyond the end of the array.\<close>

definition nthOpt :: "'a list \<Rightarrow> nat \<Rightarrow> 'a option" where
  "nthOpt xs i = (if i < length xs then Some (xs ! i) else None)"

section \<open>Resolving the three columns\<close>

definition descCandidates :: "string list" where
  "descCandidates =
     [''Work Breakdown Structure Task Description'', ''Task Description'', ''Description'',
      ''Task'']"

definition statusCandidates :: "string list" where
  "statusCandidates = [''Current Status'', ''Status'']"

definition dateCandidates :: "string list" where
  "dateCandidates = [''EDD at Site'', ''EDD'', ''Target Date'', ''Deadline'', ''Date'']"

definition resolveDescKey :: "string list \<Rightarrow> string option" where
  "resolveDescKey headers = orElse (findColumnKey headers descCandidates) (nthOpt headers 0)"

definition resolveStatusKey :: "string list \<Rightarrow> string option" where
  "resolveStatusKey headers = orElse (findColumnKey headers statusCandidates) (Some ''Status'')"

definition colXHeaderOf :: "string list \<Rightarrow> string option" where
  "colXHeaderOf headers = (if length headers > 23 then Some (headers ! 23) else None)"

definition colXIsEdd :: "string option \<Rightarrow> bool" where
  "colXIsEdd colXHeader =
     (case colXHeader of
        None \<Rightarrow> False
      | Some h \<Rightarrow> h \<noteq> [] \<and> includesStr (normalizeStr h) ''edd'')"

definition resolveDateKey :: "string list \<Rightarrow> string option" where
  "resolveDateKey headers =
     (let colXHeader = colXHeaderOf headers;
          dateKey = (if colXIsEdd colXHeader then colXHeader
                     else findColumnKey headers dateCandidates)
      in if \<not> truthy dateKey \<and> truthy colXHeader then colXHeader else dateKey)"

section \<open>Normalizing one row\<close>

definition isDoneText :: "string \<Rightarrow> bool" where
  "isDoneText statusRaw =
     (includesStr (toLowerCase statusRaw) ''done'' \<or>
      includesStr (toLowerCase statusRaw) ''completed'')"

definition dateRawOf :: "string option \<Rightarrow> row \<Rightarrow> string" where
  "dateRawOf dateKey r =
     (let rowValues = map snd r;
          dateRaw = orDefault (getProp r dateKey) []
      in if dateRaw = [] \<and> length rowValues > 23 then rowValues ! 23 else dateRaw)"

definition toTask ::
  "Host \<Rightarrow> string option \<Rightarrow> string option \<Rightarrow> string option \<Rightarrow> row \<Rightarrow> nat \<Rightarrow> Task" where
  "toTask host descKey statusKey dateKey r index =
     (let description = orDefault (getProp r descKey) ''Untitled Task'';
          statusRaw = orDefault (getProp r statusKey) ''Pending'';
          dateRaw = dateRawOf dateKey r;
          isDone = isDoneText statusRaw;
          status = (if isDone then Done else Pending);
          parsedDate = parseDate host dateRaw
      in \<lparr> taskId = ''task-'' @ string_of_nat index,
           description = description,
           status = status,
           date = dateRaw,
           parsedDate = parsedDate,
           department = determineDepartment description,
           raw = r \<rparr>)"

text \<open>The result of the tabular parser, as the \<open>complete\<close> callback receives it.\<close>

record ParseResults =
  data :: "row list"
  metaFields :: "string list option"

definition headersOf :: "ParseResults \<Rightarrow> string list" where
  "headersOf results =
     (case metaFields results of
        Some fs \<Rightarrow> fs
      | None \<Rightarrow> (case data results of [] \<Rightarrow> [] | r # _ \<Rightarrow> map fst r))"

definition mapRows :: "Host \<Rightarrow> string list \<Rightarrow> row list \<Rightarrow> Task list" where
  "mapRows host headers rows =
     (let descKey = resolveDescKey headers;
          statusKey = resolveStatusKey headers;
          dateKey = resolveDateKey headers
      in map (\<lambda>(index, r). toTask host descKey statusKey dateKey r index)
             (enumerate 0 rows))"

section \<open>Number arithmetic\<close>

text \<open>
  A Number is a binary64 value.  \<open>roundDouble\<close> rounds an exact rational to the nearest
  value with a 53-bit significand, ties to the even significand; the exponent range is not
  bounded, which loses nothing here: the counts are array lengths, exact Numbers, and no
  quotient or product of the percentage leaves the normal range.  \<open>/\<close> and \<open>*\<close> round the
  exact result (the code divides by a count it has tested to be non-zero); \<open>Math.round\<close>
  gives the nearest integer, ties upwards.
\<close>

definition roundHalfEven :: "rat \<Rightarrow> int" where
  "roundHalfEven q =
     (let f = \<lfloor>q\<rfloor>; r = q - of_int f
      in if r < 1/2 then f else if 1/2 < r then f + 1 else if even f then f else f + 1)"

definition ilog2 :: "rat \<Rightarrow> int" where
  "ilog2 x =
     (let (p, q) = quotient_of x; e0 = bitlen p - bitlen q
      in if 2 powi e0 \<le> x then e0 else e0 - 1)"

definition roundDouble :: "rat \<Rightarrow> rat" where
  "roundDouble x =
     (if x = 0 then 0
      else let u = 2 powi (ilog2 \<bar>x\<bar> - 52)
           in sgn x * of_int (roundHalfEven (\<bar>x\<bar> / u)) * u)"

definition numDiv :: "rat \<Rightarrow> rat \<Rightarrow> rat" where
  "numDiv x y = roundDouble (x / y)"

definition numMul :: "rat \<Rightarrow> rat \<Rightarrow> rat" where
  "numMul x y = roundDouble (x * y)"

definition Math_round :: "rat \<Rightarrow> int" where
  "Math_round x = \<lfloor>x + 1/2\<rfloor>"

text \<open>\<open>total === 0 ? 0 : Math.round((completed / total) * 100)\<close>\<close>

definition percentageOf :: "nat \<Rightarrow> nat \<Rightarrow> int" where
  "percentageOf completed totalN =
     (if totalN = 0 then 0
      else Math_round (numMul (numDiv (of_nat completed) (of_nat totalN)) 100))"

section \<open>Aggregation per department\<close>

definition allDepts :: "DepartmentType list" where
  "allDepts = map fst KEYWORDS @ [General]"

text \<open>
  The \<open>Map\<close> keeps its keys in insertion order; \<open>set\<close> on a key it holds replaces the value
  in place.
\<close>

definition addTask ::
  "(DepartmentType \<times> Task list) list \<Rightarrow> Task \<Rightarrow> (DepartmentType \<times> Task list) list" where
  "addTask deptMap t =
     (let current = (case map_of deptMap (department t) of Some ts \<Rightarrow> ts | None \<Rightarrow> [])
      in AList.update (department t) (current @ [t]) deptMap)"

definition groupTasks :: "Task list \<Rightarrow> (DepartmentType \<times> Task list) list" where
  "groupTasks ts = foldl addTask (map (\<lambda>d. (d, [])) allDepts) ts"

text \<open>
  \<open>compareAsc\<close> orders two dates by their time values; the comparator reads \<open>parsedDate!\<close>
  of tasks that passed the filter, so the default below is never used.  \<open>sort\<close> is stable.
\<close>

definition getTime :: "Task \<Rightarrow> int" where
  "getTime t = (case parsedDate t of Some d \<Rightarrow> d | None \<Rightarrow> 0)"

definition isFutureTask :: "Host \<Rightarrow> Task \<Rightarrow> bool" where
  "isFutureTask host t =
     (status t \<noteq> Done \<and> (case parsedDate t of Some d \<Rightarrow> now host < d | None \<Rightarrow> False))"

definition isOverdueTask :: "Host \<Rightarrow> Task \<Rightarrow> bool" where
  "isOverdueTask host t =
     (status t \<noteq> Done \<and>
      (case parsedDate t of Some d \<Rightarrow> d < startOfToday host | None \<Rightarrow> False))"

definition statsOf :: "Host \<Rightarrow> DepartmentType \<Rightarrow> Task list \<Rightarrow> DepartmentStats" where
  "statsOf host nm deptTasks =
     (let totalN = length deptTasks;
          completed = length (filter (\<lambda>t. status t = Done) deptTasks);
          futureTasks = sort_key getTime (filter (isFutureTask host) deptTasks);
          overdue = length (filter (isOverdueTask host) deptTasks)
      in \<lparr> name = nm,
           totalTasks = totalN,
           completedTasks = completed,
           percentage = percentageOf completed totalN,
           nextDeadline = (case futureTasks of [] \<Rightarrow> None | t # _ \<Rightarrow> parsedDate t),
           overdueCount = overdue \<rparr>)"

definition collectStats ::
  "Host \<Rightarrow> (DepartmentType \<times> Task list) list \<Rightarrow> DepartmentStats list" where
  "collectStats host deptMap =
     concat (map (\<lambda>(nm, deptTasks).
                    if deptTasks = [] \<and> nm = General then []
                    else [statsOf host nm deptTasks]) deptMap)"

section \<open>The \<open>complete\<close> callback of \<open>fetchAndProcessData\<close>\<close>

definition complete :: "Host \<Rightarrow> ParseResults \<Rightarrow> DashboardData" where
  "complete host results =
     (if data results = [] then \<lparr> tasks = [], departmentStats = [], overallProgress = 0 \<rparr>
      else let headers = headersOf results;
               ts = mapRows host headers (data results);
               stats = collectStats host (groupTasks ts);
               totalAll = length ts;
               completedAll = length (filter (\<lambda>t. status t = Done) ts)
           in \<lparr> tasks = ts,
                departmentStats = filter (\<lambda>d. totalTasks d > 0) stats,
                overallProgress = percentageOf completedAll totalAll \<rparr>)"

section \<open>Example inputs\<close>

text \<open>
  A host for running the model on examples.  Its format parser knows two date texts in the
  first format (15 January 2024 and 1 March 2024, as time values at midnight UTC), its
  general interpreter knows none; its clock stands at noon of 1 February 2024.
\<close>

definition stubHost :: Host where
  "stubHost =
     \<lparr> parse = (\<lambda>str fmt. if fmt = ''d-MMM-yy'' \<and> str = ''15-Jan-24'' then Some 1705276800000
                            else if fmt = ''d-MMM-yy'' \<and> str = ''1-Mar-24'' then Some 1709251200000
                            else None),
       newDate = (\<lambda>str. None),
       now = 1706788800000,
       startOfToday = 1706745600000 \<rparr>"

definition scenarioRow :: row where
  "scenarioRow =
     [(''Task'', ''Tender for new warehouse racks''), (''Status'', []),
      (''EDD'', ''2024-02-30'')]"

definition scenarioResults :: ParseResults where
  "scenarioResults =
     \<lparr> data = [scenarioRow], metaFields = Some [''Task'', ''Status'', ''EDD''] \<rparr>"

definition sampleResults :: ParseResults where
  "sampleResults =
     \<lparr> data =
         [[(''Task'', ''Process payroll adjustments''), (''Status'', ''Completed''),
           (''EDD'', ''15-Jan-24'')],
          [(''Task'', ''Update payroll ledger''), (''Status'', ''Pending''),
           (''EDD'', ''15-Jan-24'')],
          [(''Task'', ''Salary review meeting''), (''Status'', ''In progress''),
           (''EDD'', ''1-Mar-24'')],
          scenarioRow],
       metaFields = Some [''Task'', ''Status'', ''EDD''] \<rparr>"

definition sampleStatsHR :: DepartmentStats where
  "sampleStatsHR =
     \<lparr> name = HR_Payroll, totalTasks = 3, completedTasks = 1, percentage = 33,
       nextDeadline = Some 1709251200000, overdueCount = 1 \<rparr>"

definition sampleStatsInventory :: DepartmentStats where
  "sampleStatsInventory =
     \<lparr> name = Inventory_Stores, totalTasks = 1, completedTasks = 0, percentage = 0,
       nextDeadline = None, overdueCount = 0 \<rparr>"

text \<open>A sheet of 24 columns whose \<open>Date\<close> cell is empty and whose 24th cell holds a date.\<close>

definition positionalHeaders :: "string list" where
  "positionalHeaders =
     [''Task'', ''Status'', ''Date''] @ map (\<lambda>n. ''c'' @ string_of_nat n) [3..<24]"

definition positionalRow :: row where
  "positionalRow =
     zip positionalHeaders
       ([''Install database'', ''Pending'', []] @ replicate 20 [] @ [''15-Jan-24''])"

definition positionalResults :: ParseResults where
  "positionalResults = \<lparr> data = [positionalRow], metaFields = Some positionalHeaders \<rparr>"

text \<open>A header row of 24 columns, none a date synonym, whose 24th header is empty.\<close>

definition blankHeaders :: "string list" where
  "blankHeaders = map (\<lambda>n. ''c'' @ string_of_nat n) [0..<23] @ [[]]"

text \<open>Two orders of the same three headers, two of which contain \<open>task\<close>.\<close>

definition ownerHeaders :: "string list" where
  "ownerHeaders = [''Task'', ''Task Owner'', ''Status'']"

definition ownerHeadersPermuted :: "string list" where
  "ownerHeadersPermuted = [''Task Owner'', ''Task'', ''Status'']"

text \<open>
  A host whose \<open>Date\<close> constructor accepts a day of month up to 31 in every month and rolls
  it over, as the constructor of V8 does: it reads \<open>2024-02-30\<close> as 1 March 2024 (midnight
  UTC).  Its format parser is the one of \<open>stubHost\<close> and accepts no format for that text.
\<close>

definition rolloverHost :: Host where
  "rolloverHost =
     \<lparr> parse = parse stubHost,
       newDate = (\<lambda>str. if str = ''2024-02-30'' then Some 1709251200000 else None),
       now = 1706788800000,
       startOfToday = 1706745600000 \<rparr>"

text \<open>A sheet of three tasks of one department, two of them completed.\<close>

definition roundingResults :: ParseResults where
  "roundingResults =
     \<lparr> data =
         [[(''Task'', ''Process payroll adjustments''), (''Status'', ''Completed''),
           (''EDD'', ''15-Jan-24'')],
          [(''Task'', ''Approve leave requests''), (''Status'', ''Done''),
           (''EDD'', ''15-Jan-24'')],
          [(''Task'', ''Salary review meeting''), (''Status'', ''In progress''),
           (''EDD'', ''1-Mar-24'')]],
       metaFields = Some [''Task'', ''Status'', ''EDD''] \<rparr>"

text \<open>A sheet of forty tasks of one department, 23 of them completed.\<close>

definition fortyResults :: ParseResults where
  "fortyResults =
     \<lparr> data =
         replicate 23 [(''Task'', ''Process payroll adjustments''), (''Status'', ''Completed''),
                       (''EDD'', ''15-Jan-24'')] @
         replicate 17 [(''Task'', ''Update payroll ledger''), (''Status'', ''Pending''),
                       (''EDD'', ''15-Jan-24'')],
       metaFields = Some [''Task'', ''Status'', ''EDD''] \<rparr>"

section \<open>The specification's wording\<close>

text \<open>
  The status text as the specification words it: the value of the resolved status column
  when the row has one, otherwise the default.
\<close>

definition statusValueOrDefault :: "string option \<Rightarrow> row \<Rightarrow> string" where
  "statusValueOrDefault statusKey r =
     (case getProp r statusKey of Some v \<Rightarrow> v | None \<Rightarrow> ''Pending'')"

text \<open>
  \<open>s\<close> contains \<open>p\<close> as a case-insensitive substring: some contiguous block of \<open>s\<close> equals \<open>p\<close>
  up to the case of its letters.
\<close>

definition containsIgnoringCase :: "string \<Rightarrow> string \<Rightarrow> bool" where
  "containsIgnoringCase s p = (\<exists>u. sublist u s \<and> toLowerCase u = toLowerCase p)"

text \<open>
  The first format, in list order, for which the library gives a valid date, with that
  date.
\<close>

definition firstValidFormat :: "Host \<Rightarrow> string \<Rightarrow> int option" where
  "firstValidFormat host str =
     (case List.map_filter (parse host str) formats of [] \<Rightarrow> None | d # _ \<Rightarrow> Some d)"

text \<open>
  The ordered synonym search as the specification words it: a header matches a synonym
  when its normalized form equals or contains the normalized synonym; the search takes the
  first synonym, in list order, that some header matches, and for it the first matching
  header, in header order.
\<close>

definition headerMatches :: "string \<Rightarrow> string \<Rightarrow> bool" where
  "headerMatches candidate h =
     (normalizeStr h = normalizeStr candidate \<or>
      includesStr (normalizeStr h) (normalizeStr candidate))"

definition winningCandidate :: "string list \<Rightarrow> string list \<Rightarrow> string option" where
  "winningCandidate headers candidates =
     find (\<lambda>c. list_ex (headerMatches c) headers) candidates"

definition synonymSearch :: "string list \<Rightarrow> string list \<Rightarrow> string option" where
  "synonymSearch headers candidates =
     (case winningCandidate headers candidates of
        None \<Rightarrow> None
      | Some c \<Rightarrow> find (headerMatches c) headers)"

text \<open>Some synonym has a match, and the headers matching the first such synonym are all the same text.\<close>

definition uniqueMatch :: "string list \<Rightarrow> string list \<Rightarrow> bool" where
  "uniqueMatch headers candidates =
     (case winningCandidate headers candidates of
        None \<Rightarrow> False
      | Some c \<Rightarrow> length (remdups (filter (headerMatches c) headers)) = 1)"

text \<open>
  The percentage as the specification writes it, \<open>round(completed / total \<times> 100)\<close> in exact
  arithmetic, rounding to the nearest integer (a tie goes up), and 0 for a zero count.
\<close>

definition exactPercentage :: "nat \<Rightarrow> nat \<Rightarrow> int" where
  "exactPercentage completed totalN =
     (if totalN = 0 then 0
      else \<lfloor>(of_nat completed / of_nat totalN * 100 :: rat) + 1 / 2\<rfloor>)"

section \<open>Column keys and classification of the scenario row\<close>

lemma scenario_descKey: "resolveDescKey [''Task'', ''Status'', ''EDD''] = Some ''Task''"
  by code_simp

lemma scenario_statusKey: "resolveStatusKey [''Task'', ''Status'', ''EDD''] = Some ''Status''"
  by code_simp

lemma scenario_dateKey: "resolveDateKey [''Task'', ''Status'', ''EDD''] = Some ''EDD''"
  by code_simp

lemma scenario_department:
  "determineDepartment ''Tender for new warehouse racks'' = Inventory_Stores"
  by code_simp

lemma scenario_trim: "trim ''2024-02-30'' = ''2024-02-30''"
  by code_simp

lemma scenario_isDone: "isDoneText ''Pending'' = False"
  by code_simp

lemma scenario_index: "string_of_nat 0 = ''0''"
  by code_simp

section \<open>Structure of the output\<close>

lemma tasks_complete:
  "tasks (complete host results) = mapRows host (headersOf results) (data results)"
  by (simp add: complete_def mapRows_def Let_def)

lemma overallProgress_complete:
  "overallProgress (complete host results) =
     percentageOf (length (filter (\<lambda>t. status t = Done) (tasks (complete host results))))
                  (length (tasks (complete host results)))"
  by (simp add: complete_def Let_def percentageOf_def)

lemma length_mapRows: "length (mapRows host hs rows) = length rows"
  by (simp add: mapRows_def Let_def)

lemma nth_mapRows:
  "i < length rows \<Longrightarrow>
   mapRows host hs rows ! i =
     toTask host (resolveDescKey hs) (resolveStatusKey hs) (resolveDateKey hs) (rows ! i) i"
  by (simp add: mapRows_def Let_def nth_enumerate_eq)

lemma allDepts_eq:
  "allDepts = [HR_Payroll, Finance, Procurement, Inventory_Stores, Equipment_Workshop,
               Projects_Sales, Setup_Admin, General]"
  by (simp add: allDepts_def KEYWORDS_def)

lemma distinct_allDepts: "distinct allDepts"
  by (simp add: allDepts_eq)

lemma in_allDepts: "d \<in> set allDepts"
  by (cases d) (simp_all add: allDepts_eq)

lemma update_map_keys:
  "distinct ds \<Longrightarrow>
   AList.update k v (map (\<lambda>d. (d, g d)) ds) =
     (if k \<in> set ds then map (\<lambda>d. (d, if d = k then v else g d)) ds
      else map (\<lambda>d. (d, g d)) ds @ [(k, v)])"
  by (induction ds) auto

lemma map_of_map_keys: "map_of (map (\<lambda>d. (d, g d)) ds) k = (if k \<in> set ds then Some (g k) else None)"
  by (induction ds) auto

lemma addTask_map_keys:
  assumes "distinct ds" "department t \<in> set ds"
  shows "addTask (map (\<lambda>d. (d, g d)) ds) t =
         map (\<lambda>d. (d, if d = department t then g d @ [t] else g d)) ds"
  using assms by (simp add: addTask_def map_of_map_keys update_map_keys)

lemma foldl_addTask:
  assumes "distinct ds" "\<forall>t \<in> set ts. department t \<in> set ds"
  shows "foldl addTask (map (\<lambda>d. (d, g d)) ds) ts =
         map (\<lambda>d. (d, g d @ filter (\<lambda>t. department t = d) ts)) ds"
  using assms(2)
proof (induction ts arbitrary: g)
  case Nil
  then show ?case by simp
next
  case (Cons t ts)
  have "foldl addTask (map (\<lambda>d. (d, g d)) ds) (t # ts) =
        foldl addTask (map (\<lambda>d. (d, if d = department t then g d @ [t] else g d)) ds) ts"
    using Cons.prems assms(1) by (simp add: addTask_map_keys)
  also have "\<dots> = map (\<lambda>d. (d, (if d = department t then g d @ [t] else g d) @
                              filter (\<lambda>t. department t = d) ts)) ds"
    using Cons.prems by (intro Cons.IH) simp
  also have "\<dots> = map (\<lambda>d. (d, g d @ filter (\<lambda>t. department t = d) (t # ts))) ds"
    by (rule map_cong) auto
  finally show ?case .
qed

lemma groupTasks_eq:
  "groupTasks ts = map (\<lambda>d. (d, filter (\<lambda>t. department t = d) ts)) allDepts"
  unfolding groupTasks_def
  using foldl_addTask[OF distinct_allDepts, of ts "\<lambda>d. []"] by (simp add: in_allDepts)

lemma statsOf_simps:
  "name (statsOf host d xs) = d"
  "totalTasks (statsOf host d xs) = length xs"
  "completedTasks (statsOf host d xs) = length (filter (\<lambda>t. status t = Done) xs)"
  "percentage (statsOf host d xs) =
     percentageOf (length (filter (\<lambda>t. status t = Done) xs)) (length xs)"
  "overdueCount (statsOf host d xs) = length (filter (isOverdueTask host) xs)"
  "nextDeadline (statsOf host d xs) =
     (case sort_key getTime (filter (isFutureTask host) xs) of
        [] \<Rightarrow> None | t # _ \<Rightarrow> parsedDate t)"
  by (simp_all add: statsOf_def Let_def)

lemma filter_collectStats:
  "filter (\<lambda>s. totalTasks s > 0)
     (collectStats host (map (\<lambda>d. (d, F d)) ds)) =
   map (\<lambda>d. statsOf host d (F d)) (filter (\<lambda>d. F d \<noteq> []) ds)"
  by (induction ds) (auto simp: collectStats_def statsOf_simps)

lemma departmentStats_complete:
  "departmentStats (complete host results) =
     map (\<lambda>d. statsOf host d (filter (\<lambda>t. department t = d) (tasks (complete host results))))
       (filter (\<lambda>d. filter (\<lambda>t. department t = d) (tasks (complete host results)) \<noteq> []) allDepts)"
proof (cases "data results = []")
  case True
  then show ?thesis by (simp add: complete_def)
next
  case False
  then show ?thesis
    by (simp add: complete_def Let_def groupTasks_eq filter_collectStats)
qed

lemma in_departmentStats:
  assumes "s \<in> set (departmentStats (complete host results))"
  shows "s = statsOf host (name s)
               (filter (\<lambda>t. department t = name s) (tasks (complete host results)))"
  using assms unfolding departmentStats_complete by (auto simp: statsOf_simps)

section \<open>Overdue counts, next deadlines and the partition of the tasks\<close>

lemma filter_filter_dept:
  "filter P (filter (\<lambda>t. department t = d) ts) = filter (\<lambda>t. department t = d \<and> P t) ts"
  by (induction ts) auto

text \<open>
  C5: for every entry of the department statistics, \<open>overdueCount\<close> is exactly the number of
  tasks of that department whose status is not Done, whose parsed date is present, and whose
  parsed date is strictly before the start of the current day.  So it counts no Done task
  and no task without a parsed date.
\<close>

theorem C5_overdueCount:
  "\<forall>s \<in> set (departmentStats (complete host results)).
     overdueCount s =
       length (filter (\<lambda>t. department t = name s \<and> status t \<noteq> Done \<and>
                            (\<exists>d. parsedDate t = Some d \<and> d < startOfToday host))
                 (tasks (complete host results)))"
proof
  fix s assume "s \<in> set (departmentStats (complete host results))"
  then have "s = statsOf host (name s)
               (filter (\<lambda>t. department t = name s) (tasks (complete host results)))"
    by (rule in_departmentStats)
  then have "overdueCount s =
     length (filter (isOverdueTask host)
        (filter (\<lambda>t. department t = name s) (tasks (complete host results))))"
    by (metis statsOf_simps(5))
  also have "\<dots> = length (filter (\<lambda>t. department t = name s \<and> isOverdueTask host t)
                        (tasks (complete host results)))"
    by (simp only: filter_filter_dept)
  also have "(\<lambda>t. department t = name s \<and> isOverdueTask host t) =
             (\<lambda>t. department t = name s \<and> status t \<noteq> Done \<and>
                            (\<exists>d. parsedDate t = Some d \<and> d < startOfToday host))"
    by (auto simp: isOverdueTask_def fun_eq_iff split: option.splits)
  finally show "overdueCount s =
       length (filter (\<lambda>t. department t = name s \<and> status t \<noteq> Done \<and>
                            (\<exists>d. parsedDate t = Some d \<and> d < startOfToday host))
                 (tasks (complete host results)))" .
qed

lemma hd_sort_key_Min:
  fixes f :: "'a \<Rightarrow> int"
  assumes "xs \<noteq> []"
  shows "\<exists>y ys. sort_key f xs = y # ys \<and> f y = Min (f ` set xs)"
proof -
  have "sort_key f xs \<noteq> []" using assms by (metis length_sort length_0_conv)
  then obtain y ys where ys: "sort_key f xs = y # ys" by (cases "sort_key f xs") auto
  have srt: "sorted (map f (y # ys))" using sorted_sort_key[of f xs] by (simp add: ys)
  have st: "set (y # ys) = set xs" using set_sort[of f xs] by (simp add: ys)
  have "Min (f ` set xs) = f y"
  proof (rule Min_eqI)
    show "finite (f ` set xs)" by simp
    show "f y \<in> f ` set xs" using st by auto
    fix v assume "v \<in> f ` set xs"
    then obtain z where "z \<in> set (y # ys)" "v = f z" using st by auto
    then show "f y \<le> v" using srt by auto
  qed
  then show ?thesis using ys by simp
qed

text \<open>
  C6: for every entry of the department statistics, \<open>nextDeadline\<close> is the least parsed date
  among the tasks of that department that are not Done and whose parsed date is present and
  strictly after the current moment; it is absent when there is no such task.
\<close>

theorem C6_nextDeadline:
  "\<forall>s \<in> set (departmentStats (complete host results)).
     nextDeadline s =
       (let F = {d. \<exists>t \<in> set (tasks (complete host results)).
                      department t = name s \<and> status t \<noteq> Done \<and>
                      parsedDate t = Some d \<and> now host < d}
        in if F = {} then None else Some (Min F))"
proof
  fix s assume s: "s \<in> set (departmentStats (complete host results))"
  define ts where "ts = tasks (complete host results)"
  define fut where "fut = filter (isFutureTask host) (filter (\<lambda>t. department t = name s) ts)"
  define F where "F = {d. \<exists>t \<in> set ts. department t = name s \<and> status t \<noteq> Done \<and>
                      parsedDate t = Some d \<and> now host < d}"
  have "s = statsOf host (name s) (filter (\<lambda>t. department t = name s) ts)"
    unfolding ts_def using s by (rule in_departmentStats)
  then have nd: "nextDeadline s = (case sort_key getTime fut of [] \<Rightarrow> None | t # _ \<Rightarrow> parsedDate t)"
    unfolding fut_def by (metis statsOf_simps(6))
  have pd: "parsedDate t = Some (getTime t)" if "t \<in> set fut" for t
    using that by (auto simp: fut_def isFutureTask_def getTime_def split: option.splits)
  have F: "F = getTime ` set fut"
  proof (rule set_eqI)
    fix d
    show "d \<in> F \<longleftrightarrow> d \<in> getTime ` set fut"
      by (auto simp: F_def fut_def isFutureTask_def getTime_def image_iff split: option.splits)
  qed
  have "nextDeadline s = (if F = {} then None else Some (Min F))"
  proof (cases "fut = []")
    case True
    then show ?thesis by (simp add: nd F)
  next
    case False
    then obtain y ys where ys: "sort_key getTime fut = y # ys" "getTime y = Min (getTime ` set fut)"
      using hd_sort_key_Min[of fut getTime] by blast
    have "y \<in> set fut" using set_sort[of getTime fut] ys(1) by auto
    then have "parsedDate y = Some (getTime y)" by (rule pd)
    then show ?thesis using False by (simp add: nd ys F)
  qed
  then show "nextDeadline s =
       (let F = {d. \<exists>t \<in> set (tasks (complete host results)).
                      department t = name s \<and> status t \<noteq> Done \<and>
                      parsedDate t = Some d \<and> now host < d}
        in if F = {} then None else Some (Min F))"
    by (simp add: F_def ts_def Let_def)
qed

lemma length_filter_disjoint:
  "(\<And>x. \<not> (P x \<and> Q x)) \<Longrightarrow>
   length (filter P xs) + length (filter Q xs) = length (filter (\<lambda>x. P x \<or> Q x) xs)"
  by (induction xs) auto

lemma sum_length_filter_keys:
  "distinct ds \<Longrightarrow>
   sum_list (map (\<lambda>d. length (filter (\<lambda>t. f t = d \<and> P t) ts)) ds) =
   length (filter (\<lambda>t. f t \<in> set ds \<and> P t) ts)"
proof (induction ds)
  case Nil
  then show ?case by simp
next
  case (Cons d ds)
  have "length (filter (\<lambda>t. f t = d \<and> P t) ts) + length (filter (\<lambda>t. f t \<in> set ds \<and> P t) ts) =
        length (filter (\<lambda>t. (f t = d \<and> P t) \<or> (f t \<in> set ds \<and> P t)) ts)"
    using Cons.prems by (intro length_filter_disjoint) auto
  also have "(\<lambda>t. (f t = d \<and> P t) \<or> (f t \<in> set ds \<and> P t)) = (\<lambda>t. f t \<in> set (d # ds) \<and> P t)"
    by auto
  finally show ?case using Cons by simp
qed

lemma sum_list_filter_zero:
  "(\<And>d. d \<in> set ds \<Longrightarrow> \<not> keep d \<Longrightarrow> g d = (0::nat)) \<Longrightarrow>
   sum_list (map g (filter keep ds)) = sum_list (map g ds)"
  by (induction ds) auto

text \<open>
  C10: the entries of the department statistics partition the task list: their \<open>totalTasks\<close>
  add up to the length of the task list and their \<open>completedTasks\<close> to the number of Done
  tasks, so that \<open>overallProgress\<close> is the percentage of these two sums.
\<close>

theorem C10_stats_partition:
  "sum_list (map totalTasks (departmentStats (complete host results))) =
     length (tasks (complete host results)) \<and>
   sum_list (map completedTasks (departmentStats (complete host results))) =
     length (filter (\<lambda>t. status t = Done) (tasks (complete host results))) \<and>
   overallProgress (complete host results) =
     percentageOf (sum_list (map completedTasks (departmentStats (complete host results))))
                  (sum_list (map totalTasks (departmentStats (complete host results))))"
proof -
  define ts where "ts = tasks (complete host results)"
  define keep where "keep = (\<lambda>d. filter (\<lambda>t. department t = d) ts \<noteq> [])"
  have ds: "departmentStats (complete host results) =
     map (\<lambda>d. statsOf host d (filter (\<lambda>t. department t = d) ts)) (filter keep allDepts)"
    unfolding ts_def keep_def by (rule departmentStats_complete)
  have "sum_list (map totalTasks (departmentStats (complete host results))) =
        sum_list (map (\<lambda>d. length (filter (\<lambda>t. department t = d \<and> True) ts)) (filter keep allDepts))"
    by (simp add: ds o_def statsOf_simps)
  also have "\<dots> = sum_list (map (\<lambda>d. length (filter (\<lambda>t. department t = d \<and> True) ts)) allDepts)"
    by (rule sum_list_filter_zero) (simp add: keep_def)
  also have "\<dots> = length (filter (\<lambda>t. department t \<in> set allDepts \<and> True) ts)"
    using distinct_allDepts by (rule sum_length_filter_keys)
  finally have a: "sum_list (map totalTasks (departmentStats (complete host results))) = length ts"
    by (simp add: in_allDepts)
  have "sum_list (map completedTasks (departmentStats (complete host results))) =
        sum_list (map (\<lambda>d. length (filter (\<lambda>t. department t = d \<and> status t = Done) ts)) (filter keep allDepts))"
    by (simp add: ds o_def statsOf_simps filter_filter_dept)
  also have "\<dots> = sum_list (map (\<lambda>d. length (filter (\<lambda>t. department t = d \<and> status t = Done) ts)) allDepts)"
    by (rule sum_list_filter_zero) (auto simp add: keep_def filter_empty_conv)
  also have "\<dots> = length (filter (\<lambda>t. department t \<in> set allDepts \<and> status t = Done) ts)"
    using distinct_allDepts by (rule sum_length_filter_keys)
  finally have b: "sum_list (map completedTasks (departmentStats (complete host results))) =
     length (filter (\<lambda>t. status t = Done) ts)"
    by (simp add: in_allDepts)
  have "overallProgress (complete host results) =
        percentageOf (length (filter (\<lambda>t. status t = Done) ts)) (length ts)"
    unfolding ts_def by (rule overallProgress_complete)
  with a b show ?thesis by (simp add: ts_def)
qed

section \<open>Rounding and percentages\<close>

lemma roundHalfEven_le:
  assumes "q \<le> of_int n"
  shows "roundHalfEven q \<le> n"
proof -
  have f: "\<lfloor>q\<rfloor> \<le> n"
    using assms by (metis floor_mono floor_of_int)
  have "\<lfloor>q\<rfloor> + 1 \<le> n" if "0 < q - of_int \<lfloor>q\<rfloor>"
  proof -
    have "of_int \<lfloor>q\<rfloor> < q" using that by simp
    then have "(of_int \<lfloor>q\<rfloor> :: rat) < of_int n" using assms by linarith
    then show ?thesis by simp
  qed
  then show ?thesis
    unfolding roundHalfEven_def Let_def using f by auto
qed

lemma roundHalfEven_ge:
  assumes "of_int n \<le> q"
  shows "n \<le> roundHalfEven q"
proof -
  have "n \<le> \<lfloor>q\<rfloor>" using assms by (simp add: le_floor_iff)
  then show ?thesis
    unfolding roundHalfEven_def Let_def by auto
qed

lemma powi_diff_nat: "(2::rat) powi (int a - int b) = 2 ^ a / 2 ^ b"
  by (simp add: power_int_diff)

lemma ilog2_bounds:
  assumes "0 < x"
  shows "2 powi (ilog2 x) \<le> x" and "x < 2 powi (ilog2 x + 1)"
proof -
  obtain p q where pq: "quotient_of x = (p, q)" by (cases "quotient_of x")
  have q: "0 < q" using pq by (rule quotient_of_denom_pos)
  have x: "x = of_int p / of_int q" using pq by (rule quotient_of_div)
  have p: "0 < p" using assms q x by (simp add: zero_less_divide_iff)
  define a where "a = nat (bitlen p - 1)"
  define b where "b = nat (bitlen q - 1)"
  have bp: "bitlen p = int a + 1" and bq: "bitlen q = int b + 1"
    using p q by (auto simp: a_def b_def bitlen_alt_def)
  have pa: "2 ^ a \<le> p" "p < 2 ^ (a + 1)"
    using bitlen_bounds[OF p] by (simp_all add: bp nat_add_distrib)
  have qb: "2 ^ b \<le> q" "q < 2 ^ (b + 1)"
    using bitlen_bounds[OF q] by (simp_all add: bq nat_add_distrib)
  have pa': "(2::rat) ^ a \<le> of_int p" "(of_int p :: rat) < 2 ^ (a + 1)"
    using pa by (metis of_int_le_iff of_int_numeral of_int_power, metis of_int_less_iff of_int_numeral of_int_power)
  have qb': "(2::rat) ^ b \<le> of_int q" "(of_int q :: rat) < 2 ^ (b + 1)"
    using qb by (metis of_int_le_iff of_int_numeral of_int_power, metis of_int_less_iff of_int_numeral of_int_power)
  have e0: "bitlen p - bitlen q = int a - int b" by (simp add: bp bq)
  have low: "(2::rat) powi (int a - int b - 1) \<le> x"
  proof -
    have "(2::rat) powi (int a - int b - 1) = 2 ^ a / 2 ^ (b + 1)"
      using powi_diff_nat[of a "b + 1"] by (simp add: algebra_simps)
    also have "\<dots> \<le> of_int p / of_int q"
      using pa'(1) qb'(2) q p by (intro frac_le) auto
    finally show ?thesis by (simp add: x)
  qed
  have up: "x < (2::rat) powi (int a - int b + 1)"
  proof -
    have "of_int p / of_int q < (2::rat) ^ (a + 1) / 2 ^ b"
      using pa'(2) qb'(1) q p by (intro frac_less) auto
    also have "\<dots> = 2 powi (int a - int b + 1)"
      using powi_diff_nat[of "a + 1" b] by (simp add: algebra_simps)
    finally show ?thesis by (simp add: x)
  qed
  show "2 powi (ilog2 x) \<le> x"
    unfolding ilog2_def pq using low by (simp add: Let_def e0)
  show "x < 2 powi (ilog2 x + 1)"
    unfolding ilog2_def pq using up by (auto simp add: Let_def e0 not_le)
qed


lemma roundDouble_nonneg:
  assumes "0 \<le> x"
  shows "0 \<le> roundDouble x"
proof (cases "x = 0")
  case True
  then show ?thesis by (simp add: roundDouble_def)
next
  case False
  then have x: "0 < x" using assms by simp
  define u :: rat where "u = 2 powi (ilog2 x - 52)"
  have u: "0 < u" by (simp add: u_def)
  have "of_int 0 \<le> x / u" using x u by simp
  then have "0 \<le> roundHalfEven (x / u)" by (rule roundHalfEven_ge)
  then show ?thesis
    using x u False by (simp add: roundDouble_def Let_def u_def[symmetric])
qed

lemma roundDouble_le_int:
  assumes "0 \<le> x" "x \<le> of_int n" "n < 2 ^ 53"
  shows "roundDouble x \<le> of_int n"
proof (cases "x = 0")
  case True
  then show ?thesis using assms by (simp add: roundDouble_def)
next
  case False
  then have x: "0 < x" using assms by simp
  define e where "e = ilog2 x"
  have "(2::rat) powi e \<le> x" unfolding e_def using x by (rule ilog2_bounds)
  also have "x < 2 powi 53"
  proof -
    have "(of_int n :: rat) < of_int (2 ^ 53)" using assms(3) by (simp only: of_int_less_iff)
    then show ?thesis using assms(2) by simp
  qed
  finally have "(2::rat) powi e < 2 powi 53" .
  then have "e < 53" using power_int_le_imp_less_exp[of "2::rat" e 53] by simp
  define k where "k = nat (52 - e)"
  have ek: "e - 52 = - int k" using \<open>e < 53\<close> by (simp add: k_def)
  define u :: rat where "u = 2 powi (e - 52)"
  have u: "0 < u" by (simp add: u_def)
  have uk: "u * 2 ^ k = 1" by (simp add: u_def ek power_int_minus)
  have "x / u = x * 2 ^ k" using uk u by (simp add: field_simps)
  also have "\<dots> \<le> of_int n * 2 ^ k" using assms(2) by simp
  also have "\<dots> = of_int (n * 2 ^ k)" by simp
  finally have "roundHalfEven (x / u) \<le> n * 2 ^ k" by (rule roundHalfEven_le)
  then have "(of_int (roundHalfEven (x / u)) :: rat) \<le> of_int (n * 2 ^ k)"
    by (simp only: of_int_le_iff)
  then have "of_int (roundHalfEven (x / u)) * u \<le> of_int (n * 2 ^ k) * u"
    using u by (simp only: mult_le_cancel_right_pos)
  also have "\<dots> = of_int n * (u * 2 ^ k)" by simp
  finally show ?thesis
    using x False by (simp add: roundDouble_def Let_def u_def[symmetric] e_def[symmetric] uk)
qed



lemma Math_round_range:
  assumes "0 \<le> x" "x \<le> 100"
  shows "0 \<le> Math_round x \<and> Math_round x \<le> 100"
  using assms unfolding Math_round_def by (simp add: floor_le_iff le_floor_iff)

lemma percentageOf_range:
  assumes "completed \<le> totalN"
  shows "0 \<le> percentageOf completed totalN \<and> percentageOf completed totalN \<le> 100"
proof (cases "totalN = 0")
  case True
  then show ?thesis by (simp add: percentageOf_def)
next
  case False
  define y :: rat where "y = of_nat completed / of_nat totalN"
  have y: "0 \<le> y" "y \<le> of_int 1"
    using assms False by (simp_all add: y_def)
  have r1: "0 \<le> roundDouble y" using y(1) by (rule roundDouble_nonneg)
  have r2: "roundDouble y \<le> of_int 1" using y by (rule roundDouble_le_int) simp
  define z where "z = roundDouble y * 100"
  have z: "0 \<le> z" "z \<le> of_int 100" using r1 r2 by (simp_all add: z_def)
  have "0 \<le> roundDouble z" using z(1) by (rule roundDouble_nonneg)
  moreover have "roundDouble z \<le> of_int 100" using z by (rule roundDouble_le_int) simp
  ultimately have "0 \<le> Math_round (roundDouble z) \<and> Math_round (roundDouble z) \<le> 100"
    by (intro Math_round_range) simp_all
  then show ?thesis using False by (simp add: percentageOf_def numDiv_def numMul_def y_def z_def)
qed

text \<open>
  The rounding agrees with binary64 on known values: integers below \<open>2^53\<close> are exact, one
  tenth is the Number \<open>0x3FB999999999999A\<close>, and 29 of 200 gives 14 where exact arithmetic
  would give 14.5 and round up.
\<close>

lemma roundDouble_ge_int:
  assumes "of_int n \<le> x" "0 < n" "x < 2 ^ 53"
  shows "of_int n \<le> roundDouble x"
proof -
  have "(0::rat) < of_int n" using assms(2) by simp
  then have x: "0 < x" using assms(1) by linarith
  define e where "e = ilog2 x"
  have "(2::rat) powi e \<le> x" unfolding e_def using x by (rule ilog2_bounds)
  also have "x < 2 powi 53" using assms(3) by simp
  finally have "(2::rat) powi e < 2 powi 53" .
  then have "e < 53" using power_int_le_imp_less_exp[of "2::rat" e 53] by simp
  define k where "k = nat (52 - e)"
  have ek: "e - 52 = - int k" using \<open>e < 53\<close> by (simp add: k_def)
  define u :: rat where "u = 2 powi (e - 52)"
  have u: "0 < u" by (simp add: u_def)
  have uk: "u * 2 ^ k = 1" by (simp add: u_def ek power_int_minus)
  have "(of_int (n * 2 ^ k) :: rat) = of_int n * 2 ^ k" by simp
  also have "\<dots> \<le> x * 2 ^ k" using assms(1) by simp
  also have "\<dots> = x / u" using uk u by (simp add: field_simps)
  finally have "n * 2 ^ k \<le> roundHalfEven (x / u)" by (rule roundHalfEven_ge)
  then have "(of_int (n * 2 ^ k) :: rat) \<le> of_int (roundHalfEven (x / u))"
    by (simp only: of_int_le_iff)
  then have "of_int (n * 2 ^ k) * u \<le> of_int (roundHalfEven (x / u)) * u"
    using u by (simp only: mult_le_cancel_right_pos)
  moreover have "of_int (n * 2 ^ k) * u = of_int n * (u * 2 ^ k)" by simp
  ultimately have "of_int n \<le> of_int (roundHalfEven (x / u)) * u"
    by (simp only: uk mult_1_right)
  moreover have "roundDouble x = of_int (roundHalfEven (x / u)) * u"
    using x by (simp add: roundDouble_def Let_def u_def e_def)
  ultimately show ?thesis by simp
qed

lemma roundDouble_int:
  assumes "0 \<le> n" "n < 2 ^ 53"
  shows "roundDouble (of_int n) = of_int n"
proof (cases "n = 0")
  case True
  then show ?thesis by (simp add: roundDouble_def)
next
  case False
  then have "0 < n" using assms(1) by simp
  have "(of_int n :: rat) < of_int (2 ^ 53)" using assms(2) by (simp only: of_int_less_iff)
  then have lt: "(of_int n :: rat) < 2 ^ 53" by simp
  have "roundDouble (of_int n) \<le> of_int n"
    using assms by (intro roundDouble_le_int) simp_all
  moreover have "of_int n \<le> roundDouble (of_int n)"
    using \<open>0 < n\<close> lt by (intro roundDouble_ge_int) simp_all
  ultimately show ?thesis by simp
qed

lemma roundDouble_one_tenth:
  "roundDouble (1 / 10) = 3602879701896397 / 36028797018963968"
proof -
  have a: "\<bar>1 / 10 :: rat\<bar> = 1 / 10"
    by simp
  have i: "ilog2 (1 / 10) = - 4"
    by code_simp
  have u: "(2::rat) powi (- 4 - 52) = 1 / 72057594037927936"
    by (simp add: power_int_minus field_simps)
  have r: "roundHalfEven (1 / 10 / (1 / 72057594037927936)) = 7205759403792794"
    by code_simp
  have "roundDouble (1 / 10) = sgn (1 / 10) * of_int 7205759403792794 * (1 / 72057594037927936)"
    by (simp only: roundDouble_def Let_def a i u r) simp
  then show ?thesis by simp
qed

lemma percentage_inexact: "percentageOf 29 200 = 14"
  by code_simp

section \<open>The statistics of a sample sheet\<close>

lemma sample_departmentStats:
  "departmentStats (complete stubHost sampleResults) = [sampleStatsHR, sampleStatsInventory]"
  by code_simp

lemma sample_tasks:
  "map (\<lambda>t. (department t, status t, parsedDate t)) (tasks (complete stubHost sampleResults)) =
     [(HR_Payroll, Done, Some 1705276800000),
      (HR_Payroll, Pending, Some 1705276800000),
      (HR_Payroll, Pending, Some 1709251200000),
      (Inventory_Stores, Pending, None)]"
  by code_simp

lemma sampleStatsHR_member:
  "sampleStatsHR \<in> set (departmentStats (complete stubHost sampleResults))"
  by (simp add: sample_departmentStats)

theorem C5_overdueCount_witness:
  "sampleStatsHR \<in> set (departmentStats (complete stubHost sampleResults)) \<and>
   overdueCount sampleStatsHR =
     length (filter (\<lambda>t. department t = name sampleStatsHR \<and> status t \<noteq> Done \<and>
                          (\<exists>d. parsedDate t = Some d \<and> d < startOfToday stubHost))
               (tasks (complete stubHost sampleResults))) \<and>
   overdueCount sampleStatsHR = 1"
  using C5_overdueCount [of stubHost sampleResults] sampleStatsHR_member
  by (auto simp: sampleStatsHR_def)

theorem C6_nextDeadline_witness:
  "sampleStatsHR \<in> set (departmentStats (complete stubHost sampleResults)) \<and>
   nextDeadline sampleStatsHR =
     (let F = {d. \<exists>t \<in> set (tasks (complete stubHost sampleResults)).
                    department t = name sampleStatsHR \<and> status t \<noteq> Done \<and>
                    parsedDate t = Some d \<and> now stubHost < d}
      in if F = {} then None else Some (Min F)) \<and>
   nextDeadline sampleStatsHR = Some 1709251200000"
proof -
  have "nextDeadline sampleStatsHR =
     (let F = {d. \<exists>t \<in> set (tasks (complete stubHost sampleResults)).
                    department t = name sampleStatsHR \<and> status t \<noteq> Done \<and>
                    parsedDate t = Some d \<and> now stubHost < d}
      in if F = {} then None else Some (Min F))"
    using C6_nextDeadline [of stubHost sampleResults] sampleStatsHR_member by blast
  then show ?thesis
    using sampleStatsHR_member by (simp add: sampleStatsHR_def)
qed

section \<open>Status classification\<close>

lemma includesStr_sublist: "includesStr s p \<longleftrightarrow> sublist p s"
  by (induction s) (auto simp: sublist_Cons_right)

lemma sublist_map_iff: "sublist p (map f s) \<longleftrightarrow> (\<exists>u. sublist u s \<and> map f u = p)"
  by (metis map_mono_sublist sublist_map_rightE)

lemma containsIgnoringCase_code:
  "containsIgnoringCase s p = includesStr (toLowerCase s) (toLowerCase p)"
  by (auto simp: containsIgnoringCase_def includesStr_sublist toLowerCase_def sublist_map_iff)

lemma lower_done: "toLowerCase ''done'' = ''done''" by code_simp
lemma lower_completed: "toLowerCase ''completed'' = ''completed''" by code_simp

lemma isDoneText_spec:
  "isDoneText v \<longleftrightarrow> containsIgnoringCase v ''done'' \<or> containsIgnoringCase v ''completed''"
  by (simp add: isDoneText_def containsIgnoringCase_code lower_done lower_completed)

lemma isDoneText_empty: "isDoneText [] = False" by code_simp
lemma isDoneText_Pending: "isDoneText ''Pending'' = False" by code_simp

lemma isDoneText_orDefault:
  "isDoneText (orDefault (getProp r k) ''Pending'') = isDoneText (statusValueOrDefault k r)"
  by (auto simp: orDefault_def statusValueOrDefault_def isDoneText_empty isDoneText_Pending
           split: option.splits)

lemma toTask_simps:
  "status (toTask host dk sk dtk r i) =
     (if isDoneText (orDefault (getProp r sk) ''Pending'') then Done else Pending)"
  "date (toTask host dk sk dtk r i) = dateRawOf dtk r"
  "parsedDate (toTask host dk sk dtk r i) = parseDate host (dateRawOf dtk r)"
  "description (toTask host dk sk dtk r i) = orDefault (getProp r dk) ''Untitled Task''"
  "department (toTask host dk sk dtk r i) =
     determineDepartment (orDefault (getProp r dk) ''Untitled Task'')"
  by (simp_all add: toTask_def Let_def)

lemma nth_tasks_complete:
  assumes "i < length (data results)"
  shows "tasks (complete host results) ! i =
     toTask host (resolveDescKey (headersOf results)) (resolveStatusKey (headersOf results))
       (resolveDateKey (headersOf results)) (data results ! i) i"
  using assms by (simp add: tasks_complete nth_mapRows)

text \<open>
  C2: for every raw record, take the value of the resolved status column when the row has
  one and the default \<open>Pending\<close> otherwise; the task's status is Done exactly when that value
  contains \<open>done\<close> or \<open>completed\<close> as a case-insensitive substring, and Pending in every
  other case.  (The code also replaces an empty status cell by the default; the status is
  the same.)
\<close>

theorem C2_status_classification:
  assumes "i < length (data results)"
  shows "status (tasks (complete host results) ! i) =
     (let v = statusValueOrDefault (resolveStatusKey (headersOf results)) (data results ! i)
      in if containsIgnoringCase v ''done'' \<or> containsIgnoringCase v ''completed''
         then Done else Pending)"
proof -
  define r where "r = data results ! i"
  define sk where "sk = resolveStatusKey (headersOf results)"
  have "status (tasks (complete host results) ! i) =
        (if isDoneText (orDefault (getProp r sk) ''Pending'') then Done else Pending)"
    using assms by (simp add: nth_tasks_complete toTask_simps r_def sk_def)
  also have "isDoneText (orDefault (getProp r sk) ''Pending'') =
             isDoneText (statusValueOrDefault sk r)"
    by (rule isDoneText_orDefault)
  also have "\<dots> \<longleftrightarrow> containsIgnoringCase (statusValueOrDefault sk r) ''done'' \<or>
                  containsIgnoringCase (statusValueOrDefault sk r) ''completed''"
    by (rule isDoneText_spec)
  finally show ?thesis by (simp add: r_def sk_def Let_def)
qed


lemma sample_length: "0 < length (data sampleResults)"
  by (simp add: sampleResults_def)

lemma sample_statusValue:
  "statusValueOrDefault (resolveStatusKey (headersOf sampleResults)) (data sampleResults ! 0) =
     ''Completed''"
  by code_simp

lemma sample_contains: "containsIgnoringCase ''Completed'' ''completed''"
  unfolding containsIgnoringCase_code by code_simp

theorem C2_status_classification_witness:
  "0 < length (data sampleResults) \<and>
   statusValueOrDefault (resolveStatusKey (headersOf sampleResults)) (data sampleResults ! 0) =
     ''Completed'' \<and>
   containsIgnoringCase ''Completed'' ''completed'' \<and>
   status (tasks (complete stubHost sampleResults) ! 0) = Done"
  using C2_status_classification [OF sample_length, of stubHost]
    sample_length sample_statusValue sample_contains
  by (simp add: Let_def)

section \<open>Date parsing as a chain of fallbacks\<close>

lemma tryFormats_map_filter:
  "tryFormats p c fs = (case List.map_filter (p c) fs of [] \<Rightarrow> None | d # _ \<Rightarrow> Some d)"
  by (induction fs) (auto simp: map_filter_simps split: option.splits)

lemma trim_empty: "trim [] = []"
  by (simp add: trim_def)

lemma parseDate_spec:
  "parseDate host s =
     (if trim s = [] then None
      else case firstValidFormat host (trim s) of Some d \<Rightarrow> Some d | None \<Rightarrow> newDate host (trim s))"
proof (cases "s = []")
  case True
  then show ?thesis by (simp add: parseDate_def trim_empty)
next
  case False
  have "tryFormats (parse host) (trim s) formats = firstValidFormat host (trim s)"
    by (simp add: tryFormats_map_filter firstValidFormat_def)
  then show ?thesis using False by (simp add: parseDate_def Let_def)
qed

lemma firstValidFormat_empty:
  assumes "\<forall>fmt \<in> set formats. parse host [] fmt = None"
  shows "firstValidFormat host [] = None"
proof -
  have "filter (\<lambda>fmt. parse host [] fmt \<noteq> None) formats = []"
    using assms by (simp add: filter_empty_conv)
  then show ?thesis by (simp add: firstValidFormat_def List.map_filter_def)
qed

text \<open>
  C4: for every row, the task keeps the date text of its cell verbatim, and its parsed date
  comes from that text, trimmed: the date of the first format of the fixed list for which
  the library gives a valid date; if there is none, the result of the general date-text
  interpreter; if that fails too, the parsed date is absent.  A blank text is absent
  without a call of the library, which is the same result for a library that rejects the
  empty text.  Every case gives a value: nothing is raised.
\<close>

theorem C4_date_parsing:
  assumes "i < length (data results)"
    and "t = tasks (complete host results) ! i"
  shows "date t = dateRawOf (resolveDateKey (headersOf results)) (data results ! i) \<and>
         parsedDate t =
           (if trim (date t) = [] then None
            else case firstValidFormat host (trim (date t)) of
                   Some d \<Rightarrow> Some d
                 | None \<Rightarrow> newDate host (trim (date t))) \<and>
         ((\<forall>fmt \<in> set formats. parse host [] fmt = None) \<and> newDate host [] = None \<longrightarrow>
          parsedDate t =
           (case firstValidFormat host (trim (date t)) of
              Some d \<Rightarrow> Some d
            | None \<Rightarrow> newDate host (trim (date t))))"
proof -
  have d: "date t = dateRawOf (resolveDateKey (headersOf results)) (data results ! i)"
    using assms by (simp add: nth_tasks_complete toTask_simps)
  have "parsedDate t = parseDate host (date t)"
    using assms by (simp add: nth_tasks_complete toTask_simps)
  then have p: "parsedDate t =
           (if trim (date t) = [] then None
            else case firstValidFormat host (trim (date t)) of
                   Some d \<Rightarrow> Some d
                 | None \<Rightarrow> newDate host (trim (date t)))"
    by (simp only: parseDate_spec)
  have "parsedDate t =
           (case firstValidFormat host (trim (date t)) of
              Some d \<Rightarrow> Some d
            | None \<Rightarrow> newDate host (trim (date t)))"
    if "\<forall>fmt \<in> set formats. parse host [] fmt = None" "newDate host [] = None"
  proof (cases "trim (date t) = []")
    case True
    then show ?thesis using p that firstValidFormat_empty[OF that(1)] by simp
  next
    case False
    then show ?thesis using p by simp
  qed
  with d p show ?thesis by blast
qed

lemma sample_index2: "2 < length (data sampleResults)"
  by (simp add: sampleResults_def)

lemma sample_index3: "3 < length (data sampleResults)"
  by (simp add: sampleResults_def)

lemma stubHost_rejects_empty:
  "(\<forall>fmt \<in> set formats. parse stubHost [] fmt = None) \<and> newDate stubHost [] = None"
  by (simp add: stubHost_def)

lemma sample_date2: "date (tasks (complete stubHost sampleResults) ! 2) = ''1-Mar-24''"
  by code_simp

lemma sample_first2: "firstValidFormat stubHost (trim ''1-Mar-24'') = Some 1709251200000"
  by code_simp

theorem C4_date_parsing_witness:
  "2 < length (data sampleResults) \<and>
   list_all (\<lambda>fmt. parse stubHost [] fmt = None) formats \<and> newDate stubHost [] = None \<and>
   date (tasks (complete stubHost sampleResults) ! 2) = ''1-Mar-24'' \<and>
   firstValidFormat stubHost (trim ''1-Mar-24'') = Some 1709251200000 \<and>
   parsedDate (tasks (complete stubHost sampleResults) ! 2) = Some 1709251200000"
proof -
  let ?t = "tasks (complete stubHost sampleResults) ! 2"
  have "parsedDate ?t =
          (case firstValidFormat stubHost (trim (date ?t)) of
             Some d \<Rightarrow> Some d
           | None \<Rightarrow> newDate stubHost (trim (date ?t)))"
    using C4_date_parsing [OF sample_index2 refl, of stubHost] stubHost_rejects_empty
    by blast
  then have "parsedDate ?t = Some 1709251200000"
    by (simp only: sample_date2 sample_first2 option.case)
  moreover have "list_all (\<lambda>fmt. parse stubHost [] fmt = None) formats"
    using stubHost_rejects_empty by (simp add: list_all_iff)
  ultimately show ?thesis
    using sample_index2 stubHost_rejects_empty sample_date2 sample_first2 by blast
qed

section \<open>The positional fallback for the date text\<close>

lemma dateRawOf_falsy:
  assumes "\<not> truthy (getProp r dateKey)"
  shows "dateRawOf dateKey r = (if 24 \<le> length r then snd (r ! 23) else [])"
proof -
  have "orDefault (getProp r dateKey) [] = []"
    using assms by (auto simp: truthy_def orDefault_def split: option.splits)
  moreover have "24 \<le> length r \<longleftrightarrow> 23 < length r" by arith
  ultimately show ?thesis by (simp add: dateRawOf_def Let_def)
qed

text \<open>
  C8 (as amended): for every raw record whose resolved date cell is empty or missing, the
  date text is the value at the 24th positional slot of the row (index 23 in value order)
  exactly when the row has at least 24 values; otherwise it stays empty.
\<close>

theorem C8_positional_fallback:
  assumes "i < length (data results)"
    and "r = data results ! i"
    and "\<not> truthy (getProp r (resolveDateKey (headersOf results)))"
  shows "date (tasks (complete host results) ! i) =
           (if 24 \<le> length r then snd (r ! 23) else [])"
  using assms by (simp add: nth_tasks_complete toTask_simps dateRawOf_falsy)

lemma positional_length: "0 < length (data positionalResults)"
  by (simp add: positionalResults_def)

lemma positional_row: "positionalRow = data positionalResults ! 0"
  by (simp add: positionalResults_def)

lemma positional_dateKey: "resolveDateKey (headersOf positionalResults) = Some ''Date''"
  by code_simp

lemma positional_cell: "getProp positionalRow (Some ''Date'') = Some []"
  by code_simp

lemma positional_row_length: "length positionalRow = 24"
  by code_simp

lemma positional_slot: "snd (positionalRow ! 23) = ''15-Jan-24''"
  by code_simp

theorem C8_positional_fallback_witness:
  "0 < length (data positionalResults) \<and>
   \<not> truthy (getProp positionalRow (resolveDateKey (headersOf positionalResults))) \<and>
   24 \<le> length positionalRow \<and>
   date (tasks (complete stubHost positionalResults) ! 0) = ''15-Jan-24''"
proof -
  have f: "\<not> truthy (getProp positionalRow (resolveDateKey (headersOf positionalResults)))"
    by (simp add: positional_dateKey positional_cell truthy_def)
  have "date (tasks (complete stubHost positionalResults) ! 0) = ''15-Jan-24''"
    using C8_positional_fallback [OF positional_length positional_row f, of stubHost]
    by (simp add: positional_row_length positional_slot)
  moreover have "24 \<le> length positionalRow"
    by (simp add: positional_row_length)
  ultimately show ?thesis
    using f positional_length by blast
qed

theorem C8_exactly_24_values_counterexample:
  "length positionalRow = 24 \<and>
   \<not> 24 < length positionalRow \<and>
   getProp positionalRow (resolveDateKey (headersOf positionalResults)) = Some [] \<and>
   map date (tasks (complete stubHost positionalResults)) = [''15-Jan-24''] \<and>
   map date (tasks (complete stubHost positionalResults)) \<noteq> [[]]"
proof -
  have "map date (tasks (complete stubHost positionalResults)) = [''15-Jan-24'']"
    by code_simp
  then show ?thesis
    by (simp add: positional_row_length positional_dateKey positional_cell)
qed

section \<open>Column resolution against the specification's search\<close>

lemma find_map_pair:
  "find P (map (\<lambda>h. (h, g h)) hs) = map_option (\<lambda>h. (h, g h)) (find (\<lambda>h. P (h, g h)) hs)"
  by (induction hs) auto

lemma matchesCandidate_headerMatches:
  "matchesCandidate (normalizeStr c) (h, normalizeStr h) = headerMatches c h"
  by (simp add: matchesCandidate_def headerMatches_def)

lemma find_None_list_ex: "find P xs = None \<longleftrightarrow> \<not> list_ex P xs"
  by (auto simp: find_None_iff list_ex_iff)

lemma findCandidate_synonymSearch:
  "findCandidate (map (\<lambda>h. (h, normalizeStr h)) hs) cands = synonymSearch hs cands"
proof (induction cands)
  case Nil
  then show ?case by (simp add: synonymSearch_def winningCandidate_def)
next
  case (Cons c cands)
  show ?case
  proof (cases "find (headerMatches c) hs")
    case None
    then have "\<not> list_ex (headerMatches c) hs" by (simp add: find_None_list_ex)
    then show ?thesis
      using None Cons
      by (simp add: find_map_pair matchesCandidate_headerMatches synonymSearch_def
          winningCandidate_def)
  next
    case (Some k)
    then have "list_ex (headerMatches c) hs"
      using find_None_list_ex[of "headerMatches c" hs] by simp
    then show ?thesis
      using Some
      by (simp add: find_map_pair matchesCandidate_headerMatches synonymSearch_def
          winningCandidate_def)
  qed
qed

lemma findColumnKey_synonymSearch: "findColumnKey hs cands = synonymSearch hs cands"
proof (cases "hs = []")
  case True
  have "find (\<lambda>c. False) cands = None" by (induction cands) auto
  then show ?thesis
    using True by (simp add: findColumnKey_def synonymSearch_def winningCandidate_def)
next
  case False
  then show ?thesis by (simp add: findColumnKey_def findCandidate_synonymSearch)
qed

lemma includesStr_nonempty: "includesStr s p \<Longrightarrow> p \<noteq> [] \<Longrightarrow> s \<noteq> []"
  by (cases s) auto

lemma normalizeStr_empty: "normalizeStr [] = []"
  by (simp add: normalizeStr_def toLowerCase_def)

lemma headerMatches_nonempty:
  assumes "headerMatches c h" "normalizeStr c \<noteq> []"
  shows "h \<noteq> []"
proof
  assume "h = []"
  then have "normalizeStr h = []" by (simp add: normalizeStr_empty)
  then show False
    using assms includesStr_nonempty[of "normalizeStr h" "normalizeStr c"]
    by (auto simp: headerMatches_def)
qed

lemma synonymSearch_Some:
  assumes "synonymSearch hs cands = Some k"
  shows "\<exists>c \<in> set cands. winningCandidate hs cands = Some c \<and> headerMatches c k \<and> k \<in> set hs"
proof -
  obtain c where c: "winningCandidate hs cands = Some c" "find (headerMatches c) hs = Some k"
    using assms by (auto simp: synonymSearch_def split: option.splits)
  have "c \<in> set cands"
    using c(1) by (auto simp: winningCandidate_def find_Some_iff)
  moreover have "headerMatches c k \<and> k \<in> set hs"
    using c(2) by (auto simp: find_Some_iff)
  ultimately show ?thesis using c(1) by blast
qed

lemma synonymSearch_truthy:
  assumes "synonymSearch hs cands = Some k" "\<forall>c \<in> set cands. normalizeStr c \<noteq> []"
  shows "k \<noteq> []"
  using synonymSearch_Some[OF assms(1)] assms(2) headerMatches_nonempty by blast

lemma dateCandidates_normal: "\<forall>c \<in> set dateCandidates. normalizeStr c \<noteq> []"
  unfolding dateCandidates_def by code_simp

lemma descCandidates_normal: "\<forall>c \<in> set descCandidates. normalizeStr c \<noteq> []"
  unfolding descCandidates_def by code_simp

lemma statusCandidates_normal: "\<forall>c \<in> set statusCandidates. normalizeStr c \<noteq> []"
  unfolding statusCandidates_def by code_simp

lemma colXIsEdd_iff:
  "colXIsEdd (colXHeaderOf hs) \<longleftrightarrow> 23 < length hs \<and> includesStr (normalizeStr (hs ! 23)) ''edd''"
proof -
  have "\<not> includesStr (normalizeStr []) ''edd''" by (simp add: normalizeStr_empty)
  then show ?thesis by (auto simp: colXIsEdd_def colXHeaderOf_def)
qed

text \<open>
  C3 (as amended): the date column is resolved in this priority: if a header exists at
  index 23 and its normalized form contains \<open>edd\<close>, that header is used unconditionally;
  otherwise the ordered synonym search over \<open>EDD at Site\<close>, \<open>EDD\<close>, \<open>Target Date\<close>,
  \<open>Deadline\<close>, \<open>Date\<close> runs, accepting for the first synonym with a match the first header
  whose normalized form equals or contains the normalized synonym; if that yields nothing and
  a non-empty header exists at index 23, that header is the last resort; with no header
  or an empty header at index 23 the date column stays unresolved.
\<close>

theorem C3_dateKey_priority:
  "resolveDateKey hs =
     (if 23 < length hs \<and> includesStr (normalizeStr (hs ! 23)) ''edd'' then Some (hs ! 23)
      else case synonymSearch hs dateCandidates of
             Some k \<Rightarrow> Some k
           | None \<Rightarrow> if 23 < length hs \<and> hs ! 23 \<noteq> [] then Some (hs ! 23) else None)"
proof (cases "colXIsEdd (colXHeaderOf hs)")
  case True
  then have c: "23 < length hs" "includesStr (normalizeStr (hs ! 23)) ''edd''"
    by (simp_all add: colXIsEdd_iff)
  then have "hs ! 23 \<noteq> []"
    using includesStr_nonempty[of "normalizeStr (hs ! 23)" "''edd''"]
    by (auto simp: normalizeStr_empty)
  then show ?thesis
    using True c by (simp add: resolveDateKey_def Let_def colXHeaderOf_def truthy_def)
next
  case False
  then have n: "\<not> (23 < length hs \<and> includesStr (normalizeStr (hs ! 23)) ''edd'')"
    by (simp add: colXIsEdd_iff)
  show ?thesis
  proof (cases "synonymSearch hs dateCandidates")
    case None
    then show ?thesis
      using False n
      by (auto simp: resolveDateKey_def Let_def colXHeaderOf_def truthy_def
          findColumnKey_synonymSearch)
  next
    case (Some k)
    then have "k \<noteq> []"
      using dateCandidates_normal by (rule synonymSearch_truthy)
    then show ?thesis
      using False n Some
      by (auto simp: resolveDateKey_def Let_def colXHeaderOf_def truthy_def
          findColumnKey_synonymSearch)
  qed
qed

theorem C3_dateKey_priority_witness:
  "resolveDateKey positionalHeaders = Some ''Date'' \<and>
   \<not> includesStr (normalizeStr (positionalHeaders ! 23)) ''edd'' \<and>
   synonymSearch positionalHeaders dateCandidates = Some ''Date''"
proof -
  have a: "\<not> includesStr (normalizeStr (positionalHeaders ! 23)) ''edd''"
    by code_simp
  have "findColumnKey positionalHeaders dateCandidates = Some ''Date''"
    by code_simp
  then have b: "synonymSearch positionalHeaders dateCandidates = Some ''Date''"
    by (simp only: findColumnKey_synonymSearch)
  from C3_dateKey_priority [of positionalHeaders] a b show ?thesis by simp
qed

theorem C3_empty_header_counterexample:
  "nthOpt blankHeaders 23 = Some [] \<and>
   \<not> includesStr (normalizeStr (blankHeaders ! 23)) ''edd'' \<and>
   findColumnKey blankHeaders dateCandidates = None \<and>
   resolveDateKey blankHeaders = None \<and>
   resolveDateKey blankHeaders \<noteq> nthOpt blankHeaders 23"
proof -
  have "nthOpt blankHeaders 23 = Some []" by code_simp
  moreover have "\<not> includesStr (normalizeStr (blankHeaders ! 23)) ''edd''" by code_simp
  moreover have "findColumnKey blankHeaders dateCandidates = None" by code_simp
  moreover have "resolveDateKey blankHeaders = None" by code_simp
  ultimately show ?thesis by simp
qed

section \<open>Column resolution under a permutation of the headers\<close>

lemma winningCandidate_set:
  assumes "set hs' = set hs"
  shows "winningCandidate hs' cands = winningCandidate hs cands"
proof -
  have "(\<lambda>c. list_ex (headerMatches c) hs') = (\<lambda>c. list_ex (headerMatches c) hs)"
    using assms by (simp add: list_ex_iff fun_eq_iff)
  then show ?thesis by (simp add: winningCandidate_def)
qed

lemma find_unique:
  assumes "set (filter P ys) = {k}"
  shows "find P ys = Some k"
proof (cases "find P ys")
  case None
  then have "filter P ys = []"
    by (auto simp: find_None_iff filter_empty_conv)
  then show ?thesis using assms by simp
next
  case (Some x)
  then have "x \<in> set (filter P ys)"
    by (auto simp: find_Some_iff)
  then have "x \<in> {k}" by (simp only: assms)
  then show ?thesis using Some by simp
qed

lemma uniqueMatch_synonymSearch:
  assumes "uniqueMatch hs cands" "set hs' = set hs"
  shows "\<exists>k. synonymSearch hs cands = Some k \<and> synonymSearch hs' cands = Some k"
proof -
  obtain c where c: "winningCandidate hs cands = Some c"
      "length (remdups (filter (headerMatches c) hs)) = 1"
    using assms(1) by (auto simp: uniqueMatch_def split: option.splits)
  from c(2) obtain k where "remdups (filter (headerMatches c) hs) = [k]"
    by (cases "remdups (filter (headerMatches c) hs)") auto
  then have "set (remdups (filter (headerMatches c) hs)) = {k}" by simp
  then have k: "set (filter (headerMatches c) hs) = {k}" by simp
  then have k': "set (filter (headerMatches c) hs') = {k}"
    using assms(2) by simp
  have c': "winningCandidate hs' cands = Some c"
    using winningCandidate_set[OF assms(2), of cands] c(1) by simp
  have "synonymSearch hs cands = Some k"
    by (simp only: synonymSearch_def c(1) option.case find_unique[OF k])
  moreover have "synonymSearch hs' cands = Some k"
    by (simp only: synonymSearch_def c' option.case find_unique[OF k'])
  ultimately show ?thesis by blast
qed

lemma orElse_Some: "k \<noteq> [] \<Longrightarrow> orElse (Some k) b = Some k"
  by (simp add: orElse_def truthy_def)

lemma uniqueMatch_findColumnKey:
  assumes "uniqueMatch hs cands" "set hs' = set hs" "\<forall>c \<in> set cands. normalizeStr c \<noteq> []"
  shows "orElse (findColumnKey hs' cands) b' = orElse (findColumnKey hs cands) b"
proof -
  obtain k where k: "synonymSearch hs cands = Some k" "synonymSearch hs' cands = Some k"
    using uniqueMatch_synonymSearch[OF assms(1,2)] by blast
  have "k \<noteq> []" using k(1) assms(3) by (rule synonymSearch_truthy)
  then show ?thesis by (simp add: findColumnKey_synonymSearch k orElse_Some)
qed

text \<open>
  C9 (as amended): for every header list in which a synonym match exists for a role
  (description, status) and the headers matching the first matching synonym of that role
  are all the same header text, permuting the headers does not change which column is
  selected for that role.
\<close>

theorem C9_resolution_under_permutation:
  assumes "mset hs' = mset hs"
  shows "(uniqueMatch hs descCandidates \<longrightarrow> resolveDescKey hs' = resolveDescKey hs) \<and>
         (uniqueMatch hs statusCandidates \<longrightarrow> resolveStatusKey hs' = resolveStatusKey hs)"
proof -
  have s: "set hs' = set hs" using assms by (rule mset_eq_setD)
  have "resolveDescKey hs' = resolveDescKey hs" if "uniqueMatch hs descCandidates"
    unfolding resolveDescKey_def
    using that s descCandidates_normal by (rule uniqueMatch_findColumnKey)
  moreover have "resolveStatusKey hs' = resolveStatusKey hs" if "uniqueMatch hs statusCandidates"
    unfolding resolveStatusKey_def
    using that s statusCandidates_normal by (rule uniqueMatch_findColumnKey)
  ultimately show ?thesis by blast
qed

theorem C9_resolution_under_permutation_witness:
  "mset [''EDD'', ''Status'', ''Task''] = mset [''Task'', ''Status'', ''EDD''] \<and>
   uniqueMatch [''Task'', ''Status'', ''EDD''] descCandidates \<and>
   uniqueMatch [''Task'', ''Status'', ''EDD''] statusCandidates \<and>
   resolveDescKey [''EDD'', ''Status'', ''Task''] = Some ''Task'' \<and>
   resolveStatusKey [''EDD'', ''Status'', ''Task''] = Some ''Status''"
proof -
  have m: "mset [''EDD'', ''Status'', ''Task''] = mset [''Task'', ''Status'', ''EDD'']"
    by (simp add: add_mset_commute)
  have d: "uniqueMatch [''Task'', ''Status'', ''EDD''] descCandidates"
    by code_simp
  have t: "uniqueMatch [''Task'', ''Status'', ''EDD''] statusCandidates"
    by code_simp
  from C9_resolution_under_permutation [OF m] d t
  have "resolveDescKey [''EDD'', ''Status'', ''Task''] =
          resolveDescKey [''Task'', ''Status'', ''EDD''] \<and>
        resolveStatusKey [''EDD'', ''Status'', ''Task''] =
          resolveStatusKey [''Task'', ''Status'', ''EDD'']"
    by blast
  then show ?thesis
    using m d t by (simp only: scenario_descKey scenario_statusKey simp_thms)
qed

theorem C9_two_matching_headers_counterexample:
  "mset ownerHeadersPermuted = mset ownerHeaders \<and>
   findColumnKey ownerHeaders descCandidates = Some ''Task'' \<and>
   findColumnKey ownerHeaders statusCandidates = Some ''Status'' \<and>
   resolveDescKey ownerHeaders = Some ''Task'' \<and>
   resolveDescKey ownerHeadersPermuted = Some ''Task Owner'' \<and>
   resolveDescKey ownerHeadersPermuted \<noteq> resolveDescKey ownerHeaders"
proof -
  have "mset ownerHeadersPermuted = mset ownerHeaders"
    by (simp add: ownerHeaders_def ownerHeadersPermuted_def add_mset_commute)
  moreover have "findColumnKey ownerHeaders descCandidates = Some ''Task''" by code_simp
  moreover have "findColumnKey ownerHeaders statusCandidates = Some ''Status''" by code_simp
  moreover have "resolveDescKey ownerHeaders = Some ''Task''" by code_simp
  moreover have "resolveDescKey ownerHeadersPermuted = Some ''Task Owner''" by code_simp
  ultimately show ?thesis by simp
qed

section \<open>Percentages: Number arithmetic against exact arithmetic\<close>

lemma roundHalfEven_error: "\<bar>of_int (roundHalfEven q) - q\<bar> \<le> 1 / 2"
proof -
  define r where "r = q - of_int \<lfloor>q\<rfloor>"
  have r: "0 \<le> r" "r < 1" unfolding r_def by linarith+
  have q: "q = of_int \<lfloor>q\<rfloor> + r" by (simp add: r_def)
  show ?thesis
    unfolding roundHalfEven_def Let_def r_def[symmetric]
    using r by (subst (1 2 3 4) q) auto
qed

lemma roundDouble_error:
  assumes "0 \<le> x"
  shows "\<bar>roundDouble x - x\<bar> \<le> x / 2 ^ 53"
proof (cases "x = 0")
  case True
  then show ?thesis by (simp add: roundDouble_def)
next
  case False
  then have x: "0 < x" using assms by simp
  define e where "e = ilog2 x"
  define u :: rat where "u = 2 powi (e - 52)"
  have u: "0 < u" by (simp add: u_def)
  have rd: "roundDouble x = of_int (roundHalfEven (x / u)) * u"
    using x by (simp add: roundDouble_def Let_def u_def e_def)
  have "(2::rat) powi e \<le> x" unfolding e_def using x by (rule ilog2_bounds)
  moreover have "(2::rat) powi e = u * 2 ^ 52"
    by (simp add: u_def power_int_diff)
  ultimately have ux: "u * 2 ^ 52 \<le> x" by simp
  have "roundDouble x - x = (of_int (roundHalfEven (x / u)) - x / u) * u"
    using u by (simp add: rd field_simps)
  then have "\<bar>roundDouble x - x\<bar> = \<bar>of_int (roundHalfEven (x / u)) - x / u\<bar> * \<bar>u\<bar>"
    by (simp only: abs_mult)
  also have "\<dots> = \<bar>of_int (roundHalfEven (x / u)) - x / u\<bar> * u"
    using u by simp
  finally have "\<bar>roundDouble x - x\<bar> = \<bar>of_int (roundHalfEven (x / u)) - x / u\<bar> * u" .
  also have "\<dots> \<le> 1 / 2 * u"
    using roundHalfEven_error[of "x / u"] u by (intro mult_right_mono) simp_all
  also have "\<dots> \<le> x / 2 ^ 53"
    using ux by (simp add: field_simps)
  finally show ?thesis .
qed

lemma floor_half_close:
  fixes a b :: rat
  assumes "\<bar>a - b\<bar> < 1"
  shows "\<bar>\<lfloor>a + 1 / 2\<rfloor> - \<lfloor>b + 1 / 2\<rfloor>\<bar> \<le> 1"
proof -
  have "a + 1 / 2 \<le> b + 1 / 2 + 1" "b + 1 / 2 \<le> a + 1 / 2 + 1"
    using assms by linarith+
  then have m: "\<lfloor>a + 1 / 2\<rfloor> \<le> \<lfloor>b + 1 / 2 + 1\<rfloor>" "\<lfloor>b + 1 / 2\<rfloor> \<le> \<lfloor>a + 1 / 2 + 1\<rfloor>"
    by (simp_all only: floor_mono)
  have "\<lfloor>b + 1 / 2 + 1\<rfloor> = \<lfloor>b + 1 / 2\<rfloor> + 1" "\<lfloor>a + 1 / 2 + 1\<rfloor> = \<lfloor>a + 1 / 2\<rfloor> + 1"
    using floor_add_int[of "b + 1 / 2" 1] floor_add_int[of "a + 1 / 2" 1] by simp_all
  with m show ?thesis by linarith
qed

lemma percentageOf_unfold:
  "percentageOf completed totalN =
     (if totalN = 0 then 0
      else \<lfloor>roundDouble (roundDouble (of_nat completed / of_nat totalN) * 100) + 1 / 2\<rfloor>)"
  by (simp add: percentageOf_def numDiv_def numMul_def Math_round_def)

lemma percentageOf_near_exact:
  assumes "completed \<le> totalN"
  shows "\<bar>percentageOf completed totalN - exactPercentage completed totalN\<bar> \<le> 1"
proof (cases "totalN = 0")
  case True
  then show ?thesis by (simp add: percentageOf_def exactPercentage_def)
next
  case False
  define y :: rat where "y = of_nat completed / of_nat totalN"
  have y: "0 \<le> y" "y \<le> 1" using assms False by (simp_all add: y_def)
  have e1: "\<bar>roundDouble y - y\<bar> \<le> 1 / 2 ^ 53"
  proof -
    have "\<bar>roundDouble y - y\<bar> \<le> y / 2 ^ 53" using y(1) by (rule roundDouble_error)
    also have "\<dots> \<le> 1 / 2 ^ 53" using y(2) by (simp add: divide_right_mono)
    finally show ?thesis .
  qed
  have r1: "0 \<le> roundDouble y" using y(1) by (rule roundDouble_nonneg)
  have "roundDouble y \<le> of_int 1" using y by (intro roundDouble_le_int) simp_all
  then have r2: "roundDouble y \<le> 1" by simp
  define z where "z = roundDouble y * 100"
  have z: "0 \<le> z" "z \<le> 100" using r1 r2 by (simp_all add: z_def)
  have e2: "\<bar>roundDouble z - z\<bar> \<le> 100 / 2 ^ 53"
  proof -
    have "\<bar>roundDouble z - z\<bar> \<le> z / 2 ^ 53" using z(1) by (rule roundDouble_error)
    also have "\<dots> \<le> 100 / 2 ^ 53" using z(2) by (simp add: divide_right_mono)
    finally show ?thesis .
  qed
  have "z - y * 100 = (roundDouble y - y) * 100"
    by (simp add: z_def algebra_simps)
  then have "\<bar>z - y * 100\<bar> = \<bar>roundDouble y - y\<bar> * \<bar>100\<bar>"
    by (simp only: abs_mult)
  also have "\<dots> = \<bar>roundDouble y - y\<bar> * 100" by simp
  also have "\<dots> \<le> 1 / 2 ^ 53 * 100" using e1 by (intro mult_right_mono) simp_all
  finally have e3: "\<bar>z - y * 100\<bar> \<le> 100 / 2 ^ 53" by simp
  have "\<bar>roundDouble z - y * 100\<bar> \<le> \<bar>roundDouble z - z\<bar> + \<bar>z - y * 100\<bar>" by linarith
  also have "\<dots> \<le> 100 / 2 ^ 53 + 100 / 2 ^ 53" using e2 e3 by linarith
  also have "\<dots> < (1::rat)" by simp
  finally have "\<bar>\<lfloor>roundDouble z + 1 / 2\<rfloor> - \<lfloor>y * 100 + 1 / 2\<rfloor>\<bar> \<le> 1"
    by (rule floor_half_close)
  then show ?thesis
    using False by (simp add: percentageOf_unfold exactPercentage_def y_def z_def)
qed

text \<open>
  C7 (as amended): every department's \<open>percentage\<close> and the overall \<open>overallProgress\<close> are
  integers between 0 and 100, and 0 when the task count is zero; they are computed as
  \<open>Math.round((completed / total) * 100)\<close> in binary64 arithmetic, the quotient and the
  product each rounded to the nearest Number before the final rounding to the nearest
  integer (a tie goes up), so that the result is within one of the exactly rounded
  percentage and need not equal it.
\<close>

theorem C7_percentages:
  "(\<forall>s \<in> set (departmentStats (complete host results)).
      percentage s =
        (if totalTasks s = 0 then 0
         else \<lfloor>roundDouble (roundDouble (of_nat (completedTasks s) / of_nat (totalTasks s))
                            * 100) + 1 / 2\<rfloor>) \<and>
      0 \<le> percentage s \<and> percentage s \<le> 100 \<and>
      \<bar>percentage s - exactPercentage (completedTasks s) (totalTasks s)\<bar> \<le> 1) \<and>
   overallProgress (complete host results) =
     (let totalAll = length (tasks (complete host results));
          completedAll = length (filter (\<lambda>t. status t = Done) (tasks (complete host results)))
      in if totalAll = 0 then 0
         else \<lfloor>roundDouble (roundDouble (of_nat completedAll / of_nat totalAll) * 100)
               + 1 / 2\<rfloor>) \<and>
   0 \<le> overallProgress (complete host results) \<and>
   overallProgress (complete host results) \<le> 100 \<and>
   \<bar>overallProgress (complete host results) -
     exactPercentage (length (filter (\<lambda>t. status t = Done) (tasks (complete host results))))
                     (length (tasks (complete host results)))\<bar> \<le> 1"
proof -
  have dept: "percentage s =
        (if totalTasks s = 0 then 0
         else \<lfloor>roundDouble (roundDouble (of_nat (completedTasks s) / of_nat (totalTasks s))
                            * 100) + 1 / 2\<rfloor>) \<and>
      0 \<le> percentage s \<and> percentage s \<le> 100 \<and>
      \<bar>percentage s - exactPercentage (completedTasks s) (totalTasks s)\<bar> \<le> 1"
    if "s \<in> set (departmentStats (complete host results))" for s
  proof -
    define xs where "xs = filter (\<lambda>t. department t = name s) (tasks (complete host results))"
    have s: "s = statsOf host (name s) xs"
      unfolding xs_def using that by (rule in_departmentStats)
    have p: "percentage s = percentageOf (completedTasks s) (totalTasks s)"
      by (subst (1 2 3) s) (simp add: statsOf_simps)
    have le: "completedTasks s \<le> totalTasks s"
      by (subst (1 2) s) (simp add: statsOf_simps)
    show ?thesis
      unfolding p
      using percentageOf_range[OF le] percentageOf_near_exact[OF le]
        percentageOf_unfold[of "completedTasks s" "totalTasks s"]
      by simp
  qed
  define ts where "ts = tasks (complete host results)"
  define c where "c = length (filter (\<lambda>t. status t = Done) ts)"
  have o: "overallProgress (complete host results) = percentageOf c (length ts)"
    unfolding ts_def c_def by (rule overallProgress_complete)
  have le: "c \<le> length ts" by (simp add: c_def)
  have o1: "overallProgress (complete host results) =
     (let totalAll = length (tasks (complete host results));
          completedAll = length (filter (\<lambda>t. status t = Done) (tasks (complete host results)))
      in if totalAll = 0 then 0
         else \<lfloor>roundDouble (roundDouble (of_nat completedAll / of_nat totalAll) * 100)
               + 1 / 2\<rfloor>)"
    unfolding o by (simp add: percentageOf_unfold Let_def ts_def c_def)
  have o2: "0 \<le> overallProgress (complete host results) \<and>
            overallProgress (complete host results) \<le> 100"
    unfolding o using le by (rule percentageOf_range)
  have o3: "\<bar>overallProgress (complete host results) -
     exactPercentage (length (filter (\<lambda>t. status t = Done) (tasks (complete host results))))
                     (length (tasks (complete host results)))\<bar> \<le> 1"
    using percentageOf_near_exact[OF le] by (simp add: o ts_def c_def)
  show ?thesis
    using dept o1 o2 o3 by blast
qed

lemma rounding_departmentStats:
  "departmentStats (complete stubHost roundingResults) =
     [\<lparr> name = HR_Payroll, totalTasks = 3, completedTasks = 2, percentage = 67,
        nextDeadline = Some 1709251200000, overdueCount = 0 \<rparr>]"
  by code_simp

lemma rounding_overallProgress: "overallProgress (complete stubHost roundingResults) = 67"
  by code_simp

lemma exactPercentage_two_thirds: "exactPercentage 2 3 = 67"
  by code_simp

theorem C7_percentages_witness:
  "\<lparr> name = HR_Payroll, totalTasks = 3, completedTasks = 2, percentage = 67,
      nextDeadline = Some 1709251200000, overdueCount = 0 \<rparr>
     \<in> set (departmentStats (complete stubHost roundingResults)) \<and>
   \<lfloor>roundDouble (roundDouble (of_nat 2 / of_nat 3) * 100) + 1 / 2\<rfloor> = 67 \<and>
   exactPercentage 2 3 = 67 \<and>
   overallProgress (complete stubHost roundingResults) = 67"
proof -
  let ?s = "\<lparr> name = HR_Payroll, totalTasks = 3, completedTasks = 2, percentage = 67,
      nextDeadline = Some 1709251200000, overdueCount = 0 \<rparr>"
  have m: "?s \<in> set (departmentStats (complete stubHost roundingResults))"
    by (simp add: rounding_departmentStats)
  have "percentage ?s =
        (if totalTasks ?s = 0 then 0
         else \<lfloor>roundDouble (roundDouble (of_nat (completedTasks ?s) / of_nat (totalTasks ?s))
                            * 100) + 1 / 2\<rfloor>)"
    using C7_percentages [of stubHost roundingResults] m by blast
  then have "\<lfloor>roundDouble (roundDouble (of_nat 2 / of_nat 3) * 100) + 1 / 2\<rfloor> = 67"
    by simp
  then show ?thesis
    using m exactPercentage_two_thirds rounding_overallProgress by blast
qed

lemma length_filter_enumerate:
  "length (filter (\<lambda>(i, r). Q r) (enumerate n rows)) = length (filter Q rows)"
  by (induction rows arbitrary: n) auto

lemma done_count_mapRows:
  "length (filter (\<lambda>t. status t = Done) (mapRows host hs rows)) =
   length (filter (\<lambda>r. isDoneText (orDefault (getProp r (resolveStatusKey hs)) ''Pending''))
             rows)"
proof -
  have "(\<lambda>t. status t = Done) \<circ>
          (\<lambda>(index, r). toTask host (resolveDescKey hs) (resolveStatusKey hs)
                          (resolveDateKey hs) r index) =
        (\<lambda>(i, r). isDoneText (orDefault (getProp r (resolveStatusKey hs)) ''Pending''))"
    by (auto simp: fun_eq_iff toTask_simps)
  then show ?thesis
    by (simp add: mapRows_def Let_def filter_map length_filter_enumerate)
qed

lemma forty_counts:
  "length (tasks (complete stubHost fortyResults)) = 40 \<and>
   length (filter (\<lambda>t. status t = Done) (tasks (complete stubHost fortyResults))) = 23"
proof -
  have d: "isDoneText ''Completed''" by code_simp
  have p: "\<not> isDoneText ''Pending''" by code_simp
  have k: "resolveStatusKey (headersOf fortyResults) = Some ''Status''"
    by (simp add: fortyResults_def headersOf_def scenario_statusKey)
  show ?thesis
    by (simp add: tasks_complete length_mapRows done_count_mapRows k)
       (simp add: fortyResults_def getProp_def propKey_def orDefault_def d p)
qed

lemma percentage_23_of_40: "percentageOf 23 40 = 57"
  by code_simp

lemma exactPercentage_23_of_40: "exactPercentage 23 40 = 58"
  by code_simp

theorem C7_exact_rounding_counterexample:
  "length (tasks (complete stubHost fortyResults)) = 40 \<and>
   length (filter (\<lambda>t. status t = Done) (tasks (complete stubHost fortyResults))) = 23 \<and>
   exactPercentage 23 40 = 58 \<and>
   overallProgress (complete stubHost fortyResults) = 57 \<and>
   overallProgress (complete stubHost fortyResults) \<noteq> exactPercentage 23 40"
proof -
  have "overallProgress (complete stubHost fortyResults) = percentageOf 23 40"
    using forty_counts by (simp add: overallProgress_complete)
  then have "overallProgress (complete stubHost fortyResults) = 57"
    by (simp add: percentage_23_of_40)
  then show ?thesis
    using forty_counts by (simp add: exactPercentage_23_of_40)
qed

section \<open>The scenario task\<close>

lemma scenario_parseDate:
  "parseDate host ''2024-02-30'' =
     (case firstValidFormat host ''2024-02-30'' of
        Some d \<Rightarrow> Some d
      | None \<Rightarrow> newDate host ''2024-02-30'')"
  by (simp add: parseDate_spec scenario_trim split: option.splits)

text \<open>
  C1 (as amended): for the row \<open>{"Task": "Tender for new warehouse racks", "Status": "",
  "EDD": "2024-02-30"}\<close> the normalizer produces one task with status Pending (the default
  for an empty status cell), the raw date text \<open>2024-02-30\<close>, and the department
  Inventory and Stores: in the declared order of the keyword table the entry of
  Inventory and Stores, with the keyword \<open>warehouse\<close>, comes before the entry of
  Projects and Sales, with the keyword \<open>tender\<close>.  Its parsed date is what the parsing chain
  gives for that text: the date of the first listed format the library accepts, otherwise
  the result of the general interpreter \<open>new Date("2024-02-30")\<close>; it is absent only where
  that interpreter rejects the text too, and a \<open>Date\<close> constructor that rolls an overflowing
  day of month over gives 1 March 2024.
\<close>

theorem C1_scenario_task:
  "tasks (complete host scenarioResults) =
     [\<lparr> taskId = ''task-0'',
        description = ''Tender for new warehouse racks'',
        status = Pending,
        date = ''2024-02-30'',
        parsedDate = (case firstValidFormat host ''2024-02-30'' of
                        Some d \<Rightarrow> Some d
                      | None \<Rightarrow> newDate host ''2024-02-30''),
        department = Inventory_Stores,
        raw = scenarioRow \<rparr>]"
  by (simp add: complete_def scenarioResults_def headersOf_def mapRows_def scenario_descKey
      scenario_statusKey scenario_dateKey toTask_def scenarioRow_def getProp_def propKey_def
      orDefault_def dateRawOf_def scenario_department scenario_isDone scenario_index
      scenario_parseDate Let_def)

lemma rollover_formats: "firstValidFormat rolloverHost ''2024-02-30'' = None"
  by code_simp

lemma rollover_newDate: "newDate rolloverHost ''2024-02-30'' = Some 1709251200000"
  by (simp add: rolloverHost_def)

theorem C1_scenario_task_witness:
  "firstValidFormat rolloverHost ''2024-02-30'' = None \<and>
   newDate rolloverHost ''2024-02-30'' = Some 1709251200000 \<and>
   tasks (complete rolloverHost scenarioResults) =
     [\<lparr> taskId = ''task-0'',
        description = ''Tender for new warehouse racks'',
        status = Pending,
        date = ''2024-02-30'',
        parsedDate = Some 1709251200000,
        department = Inventory_Stores,
        raw = scenarioRow \<rparr>]"
  using C1_scenario_task [of rolloverHost] rollover_formats rollover_newDate
  by simp

theorem C1_department_counterexample:
  "map department (tasks (complete rolloverHost scenarioResults)) = [Inventory_Stores] \<and>
   map department (tasks (complete rolloverHost scenarioResults)) \<noteq> [Projects_Sales] \<and>
   map parsedDate (tasks (complete rolloverHost scenarioResults)) = [Some 1709251200000] \<and>
   map parsedDate (tasks (complete rolloverHost scenarioResults)) \<noteq> [None]"
  by code_simp

end
